theory Spec2Isabelle
  imports Complex_Main "HOL-Library.Sublist"
begin

unbundle bit_operations_syntax

section \<open>Synthetic shape data generator of \<^verbatim>\<open>training/train_model.py\<close>\<close>

text \<open>
  The embedding follows the Python source function by function. Python floats are
  idealised as real numbers: every arithmetic operation is exact, so rounding error
  and the two signed zeros are outside the model. Python integers are
  \<open>int\<close>; list lengths and the canvas size (an array dimension) are \<open>nat\<close>.
  Exceptions are values of the type \<open>error\<close>; a function that can raise returns
  \<open>error + 'a\<close> with \<open>Inl\<close> the exception.

  A real number has no NaN and no infinity. Where the augmentation stages could produce
  one, the model says so: a Python division is \<open>py_div\<close>, which raises on a zero
  divisor as Python does; numpy's division, which returns NaN or an infinity instead of
  raising, is \<open>np_divide\<close>, whose abnormal result is \<open>NonFinite\<close>; and a value
  stands for a finite float when its magnitude is at most \<open>MAX_FLOAT\<close>.
\<close>

subsection \<open>Python and numpy primitives\<close>

type_synonym point = "real \<times> real"
type_synonym image = "real list list"

datatype error = IndexError | ValueError | ZeroDivisionError | KeyError | NonFinite

text \<open>\<^verbatim>\<open>int(x)\<close> on a float truncates towards zero.\<close>

definition py_int :: "real \<Rightarrow> int" where
  "py_int x = (if 0 \<le> x then \<lfloor>x\<rfloor> else \<lceil>x\<rceil>)"

text \<open>\<^verbatim>\<open>round(x)\<close> on a float rounds to the nearest integer, a tie to the even one.\<close>

definition py_round :: "real \<Rightarrow> int" where
  "py_round x =
    (let f = \<lfloor>x\<rfloor>; d = x - of_int f in
     if d < 1 / 2 then f else if 1 / 2 < d then f + 1 else if even f then f else f + 1)"

text \<open>\<^verbatim>\<open>x / y\<close> on Python numbers: a zero divisor raises.\<close>

definition py_div :: "real \<Rightarrow> real \<Rightarrow> error + real" where
  "py_div x y = (if y = 0 then Inl ZeroDivisionError else Inr (x / y))"

text \<open>
  \<^verbatim>\<open>xs / y\<close> on a numpy array: on a zero divisor every entry becomes NaN or an
  infinity and nothing is raised. The model stops there with \<open>NonFinite\<close>.
\<close>

definition np_divide :: "real list \<Rightarrow> real \<Rightarrow> error + real list" where
  "np_divide xs y =
    (if y = 0 \<and> xs \<noteq> [] then Inl NonFinite else Inr (map (\<lambda>x. x / y) xs))"


text \<open>\<^verbatim>\<open>range(a, b)\<close>.\<close>

definition py_range :: "int \<Rightarrow> int \<Rightarrow> int list" where
  "py_range a b = [a..b - 1]"

text \<open>\<^verbatim>\<open>xs[:k]\<close>: a negative \<open>k\<close> counts from the end.\<close>

definition py_slice_to :: "'a list \<Rightarrow> int \<Rightarrow> 'a list" where
  "py_slice_to xs k =
    (if 0 \<le> k then take (nat k) xs else take (length xs - nat (- k)) xs)"

text \<open>\<^verbatim>\<open>[x] * n\<close>: empty when \<open>n\<close> is not positive.\<close>

definition py_repeat :: "'a \<Rightarrow> int \<Rightarrow> 'a list" where
  "py_repeat x n = replicate (nat n) x"

text \<open>A loop whose body may raise: the first exception ends it.\<close>

fun foldE :: "('a \<Rightarrow> 'b \<Rightarrow> error + 'b) \<Rightarrow> 'a list \<Rightarrow> 'b \<Rightarrow> error + 'b" where
  "foldE f [] acc = Inr acc"
| "foldE f (x # xs) acc = (case f x acc of Inl e \<Rightarrow> Inl e | Inr acc' \<Rightarrow> foldE f xs acc')"

text \<open>\<^verbatim>\<open>np.zeros((size, size))\<close>, as a list of rows.\<close>

definition np_zeros :: "nat \<Rightarrow> image" where
  "np_zeros sz = replicate sz (replicate sz 0)"

text \<open>
  \<^verbatim>\<open>img[py, px] = v\<close> with numpy's indexing: an index in \<open>[-n, 0)\<close> wraps around to
  the end of its axis, any other index outside \<open>[0, n)\<close> raises.
\<close>

definition img_set :: "image \<Rightarrow> int \<Rightarrow> int \<Rightarrow> real \<Rightarrow> error + image" where
  "img_set img py px v =
    (let rows = int (length img) in
     if py < - rows \<or> rows \<le> py then Inl IndexError
     else
       let r = nat (if py < 0 then py + rows else py);
           cols = int (length (img ! r))
       in if px < - cols \<or> cols \<le> px then Inl IndexError
          else
            let c = nat (if px < 0 then px + cols else px)
            in Inr (img[r := (img ! r)[c := v]]))"

subsection \<open>The random sources\<close>

text \<open>
  The program draws from two ambient generators: Python's \<^verbatim>\<open>random\<close> module and
  numpy's \<^verbatim>\<open>np.random\<close>. Neither is code of this repository. Their draws are
  parameters of the model: each takes the state of its generator (\<open>'p\<close> for
  \<^verbatim>\<open>random\<close>, \<open>'n\<close> for \<^verbatim>\<open>np.random\<close>) and returns the value drawn with the
  next state.
\<close>

record ('p, 'n) rng =
  rnd_random :: "'p \<Rightarrow> real \<times> 'p"
  rnd_uniform :: "real \<Rightarrow> real \<Rightarrow> 'p \<Rightarrow> real \<times> 'p"
  rnd_randint :: "int \<Rightarrow> int \<Rightarrow> 'p \<Rightarrow> int \<times> 'p"
  rnd_gauss :: "real \<Rightarrow> real \<Rightarrow> 'p \<Rightarrow> real \<times> 'p"
  np_randn :: "nat \<Rightarrow> 'n \<Rightarrow> real list \<times> 'n"

text \<open>
  What the library documents of its draws: \<^verbatim>\<open>random()\<close> lies in \<open>[0, 1)\<close>,
  \<^verbatim>\<open>uniform(a, b)\<close> and \<^verbatim>\<open>randint(a, b)\<close> lie in \<open>[a, b]\<close>, and
  \<^verbatim>\<open>randn(n)\<close> has \<open>n\<close> entries.
\<close>

definition rng_ok :: "('p, 'n) rng \<Rightarrow> bool" where
  "rng_ok R \<longleftrightarrow>
     (\<forall>s. 0 \<le> fst (rnd_random R s) \<and> fst (rnd_random R s) < 1)
     \<and> (\<forall>a b s. a \<le> b \<longrightarrow> a \<le> fst (rnd_uniform R a b s) \<and> fst (rnd_uniform R a b s) \<le> b)
     \<and> (\<forall>a b s. a \<le> b \<longrightarrow> a \<le> fst (rnd_randint R a b s) \<and> fst (rnd_randint R a b s) \<le> b)
     \<and> (\<forall>n s. length (fst (np_randn R n s)) = n)"

text \<open>
  The normal draws are finite floats as well. How far from the mean they can lie depends
  on the implementation (CPython's \<^verbatim>\<open>gauss\<close> stays within nine standard deviations);
  \<open>normal_bound R G\<close> says that they lie within \<open>G\<close> standard deviations.
\<close>

definition normal_bound :: "('p, 'n) rng \<Rightarrow> real \<Rightarrow> bool" where
  "normal_bound R G \<longleftrightarrow>
     (\<forall>mu sigma s. 0 \<le> sigma \<longrightarrow> \<bar>fst (rnd_gauss R mu sigma s) - mu\<bar> \<le> G * sigma)
     \<and> (\<forall>n s. \<forall>v \<in> set (fst (np_randn R n s)). \<bar>v\<bar> \<le> G)"

text \<open>
  A concrete source for running the model: the state counts the draws, and every draw
  returns the low end of its range (\<open>1/4\<close> for \<^verbatim>\<open>random()\<close>).
\<close>

definition low_rng :: "(nat, nat) rng" where
  "low_rng =
    \<lparr>rnd_random = (\<lambda>s. (1 / 4, Suc s)),
     rnd_uniform = (\<lambda>a b s. (a, Suc s)),
     rnd_randint = (\<lambda>a b s. (a, Suc s)),
     rnd_gauss = (\<lambda>mu sigma s. (mu, Suc s)),
     np_randn = (\<lambda>n s. (replicate n 0, Suc s))\<rparr>"

text \<open>A second one, whose \<^verbatim>\<open>random()\<close> returns \<open>3/4\<close>.\<close>

definition high_rng :: "(nat, nat) rng" where
  "high_rng = low_rng\<lparr>rnd_random := (\<lambda>s. (3 / 4, Suc s))\<rparr>"

subsection \<open>Geometry helpers\<close>

definition lerp_points :: "point \<Rightarrow> point \<Rightarrow> int \<Rightarrow> point list" where
  "lerp_points p1 p2 n =
    map (\<lambda>i. let t = real_of_int i / real_of_int (max (n - 1) 1)
             in (fst p1 + t * (fst p2 - fst p1), snd p1 + t * (snd p2 - snd p1)))
        (py_range 0 n)"

definition edges_of :: "point list \<Rightarrow> (point \<times> point) list" where
  "edges_of vertices =
    map (\<lambda>i. (vertices ! i, vertices ! (i + 1))) [0..<length vertices - 1]"

definition edge_length :: "point \<times> point \<Rightarrow> real" where
  "edge_length e =
    (case e of (a, b) \<Rightarrow> sqrt ((fst b - fst a)\<^sup>2 + (snd b - snd a)\<^sup>2))"

text \<open>The number of points an edge of length \<open>elen\<close> receives.\<close>

definition edge_points :: "int \<Rightarrow> real \<Rightarrow> real \<Rightarrow> int" where
  "edge_points total_points total_len elen =
    max 2 (py_round (real_of_int total_points * elen / total_len))"

definition interpolate_along_edges :: "point list \<Rightarrow> int \<Rightarrow> error + point list" where
  "interpolate_along_edges vertices total_points =
    (let edges = edges_of vertices;
         edge_lengths = map edge_length edges;
         total_len = sum_list edge_lengths
     in if total_len = 0 then
          (case vertices of
             [] \<Rightarrow> Inl IndexError
           | v # _ \<Rightarrow> Inr (py_repeat v total_points))
        else
          Inr (py_slice_to
                 (concat (map (\<lambda>((a, b), elen).
                                lerp_points a b (edge_points total_points total_len elen))
                              (zip edges edge_lengths)))
                 total_points))"

text \<open>The total edge length that \<^verbatim>\<open>interpolate_along_edges\<close> computes.\<close>

definition perimeter :: "point list \<Rightarrow> real" where
  "perimeter vertices = sum_list (map edge_length (edges_of vertices))"

subsection \<open>Hand-drawing simulation: the incomplete shape\<close>

definition simulate_incomplete_shape ::
  "('p, 'n) rng \<Rightarrow> point list \<Rightarrow> bool \<Rightarrow> 'p \<Rightarrow> point list \<times> 'p" where
  "simulate_incomplete_shape R points is_closed s =
    (if \<not> is_closed then (points, s)
     else
       let (u, s1) = rnd_random R s in
       if 4 / 10 < u then (points, s1)
       else
         let (ratio, s2) = rnd_uniform R (80 / 100) (95 / 100) s1
         in (py_slice_to points (max 3 (py_int (real (length points) * ratio))), s2))"

subsection \<open>The rectangle generator's orientation flip\<close>

text \<open>
  \<^verbatim>\<open>corners = [(y - 50 + 50, x - 50 + 50) for x, y in corners]\<close>, the body of the
  branch taken with probability one half in \<^verbatim>\<open>generate_rectangle\<close>.
\<close>

definition rectangle_flip :: "point list \<Rightarrow> point list" where
  "rectangle_flip corners = map (\<lambda>(x, y). (y - 50 + 50, x - 50 + 50)) corners"

subsection \<open>Rasterization\<close>

definition normalize_points :: "point list \<Rightarrow> nat \<Rightarrow> error + point list" where
  "normalize_points points sz =
    (if points = [] then Inl ValueError
     else
       let xs = map fst points;
           ys = map snd points;
           min_x = Min (set xs); max_x = Max (set xs);
           min_y = Min (set ys); max_y = Max (set ys);
           w = max_x - min_x;
           h = max_y - min_y
       in if w = 0 \<and> h = 0 then Inr [(real sz / 2, real sz / 2)]
          else
            let padding = real sz * (1 / 10);
                s = (real sz - 2 * padding) / max (max w h) (1 / 10 ^ 8);
                offset_x = (real sz - w * s) / 2;
                offset_y = (real sz - h * s) / 2
            in Inr (map (\<lambda>(x, y). ((x - min_x) * s + offset_x, (y - min_y) * s + offset_y))
                        points))"

definition STROKE_WIDTH :: real where
  "STROKE_WIDTH = 3 / 2"

definition stamp_pixel ::
  "nat \<Rightarrow> real \<Rightarrow> real \<Rightarrow> real \<Rightarrow> int \<Rightarrow> int \<Rightarrow> image \<Rightarrow> error + image" where
  "stamp_pixel sz stroke_width cx cy wx wy img =
    (let dist = sqrt (real_of_int (wx * wx + wy * wy)) in
     if dist \<le> stroke_width then
       let px = py_round (cx + real_of_int wx);
           py = py_round (cy + real_of_int wy)
       in if 0 \<le> px \<and> px < int sz \<and> 0 \<le> py \<and> py < int sz
          then img_set img py px 1
          else Inr img
     else Inr img)"

definition stamp_disc :: "nat \<Rightarrow> real \<Rightarrow> real \<Rightarrow> real \<Rightarrow> image \<Rightarrow> error + image" where
  "stamp_disc sz stroke_width cx cy img =
    foldE (\<lambda>wx. foldE (\<lambda>wy. stamp_pixel sz stroke_width cx cy wx wy)
                       (py_range (py_int (- stroke_width - 1)) (py_int (stroke_width + 2))))
          (py_range (py_int (- stroke_width - 1)) (py_int (stroke_width + 2)))
          img"

definition draw_segment :: "nat \<Rightarrow> real \<Rightarrow> point \<Rightarrow> point \<Rightarrow> image \<Rightarrow> error + image" where
  "draw_segment sz stroke_width p1 p2 img =
    (let x1 = fst p1; y1 = snd p1;
         x2 = fst p2; y2 = snd p2;
         dx = x2 - x1; dy = y2 - y1;
         steps = max (py_int (sqrt (dx * dx + dy * dy) * 2)) 1
     in foldE (\<lambda>s. let t = real_of_int s / real_of_int steps
                   in stamp_disc sz stroke_width (x1 + t * dx) (y1 + t * dy))
              (py_range 0 (steps + 1))
              img)"

definition rasterize :: "point list \<Rightarrow> nat \<Rightarrow> real \<Rightarrow> error + image" where
  "rasterize points sz stroke_width =
    (case normalize_points points sz of
       Inl e \<Rightarrow> Inl e
     | Inr nrm \<Rightarrow>
         foldE (\<lambda>i. draw_segment sz stroke_width (nrm ! (i - 1)) (nrm ! i))
               [1..<length nrm]
               (np_zeros sz))"

text \<open>Width and height of the axis-aligned bounding box of a non-empty polyline.\<close>

definition bbox_width :: "point list \<Rightarrow> real" where
  "bbox_width pts = Max (set (map fst pts)) - Min (set (map fst pts))"

definition bbox_height :: "point list \<Rightarrow> real" where
  "bbox_height pts = Max (set (map snd pts)) - Min (set (map snd pts))"

text \<open>The scale factor of \<^verbatim>\<open>normalize_points\<close>.\<close>

definition normalize_scale :: "point list \<Rightarrow> nat \<Rightarrow> real" where
  "normalize_scale points sz =
    (real sz - 2 * (real sz * (1 / 10))) / max (max (bbox_width points) (bbox_height points)) (1 / 10 ^ 8)"

text \<open>A \<open>sz \<times> sz\<close> grid whose entries are all \<open>0\<close> or \<open>1\<close>.\<close>

definition binary_image :: "nat \<Rightarrow> image \<Rightarrow> bool" where
  "binary_image sz img \<longleftrightarrow>
     length img = sz \<and> (\<forall>row \<in> set img. length row = sz \<and> (\<forall>v \<in> set row. v = 0 \<or> v = 1))"

subsection \<open>Loops that thread the random source\<close>

text \<open>
  \<^verbatim>\<open>[f(x) for x in xs]\<close> and \<^verbatim>\<open>for x in xs: result.append(f(x))\<close>, where \<open>f\<close>
  draws from the source: the draws happen in list order.
\<close>

fun map_st :: "('a \<Rightarrow> 's \<Rightarrow> 'b \<times> 's) \<Rightarrow> 'a list \<Rightarrow> 's \<Rightarrow> 'b list \<times> 's" where
  "map_st f [] s = ([], s)"
| "map_st f (x # xs) s =
     (let (y, s1) = f x s;
          (ys, s2) = map_st f xs s1
      in (y # ys, s2))"

text \<open>The same for a body that may raise.\<close>

fun map_stE ::
  "('a \<Rightarrow> 's \<Rightarrow> error + 'b \<times> 's) \<Rightarrow> 'a list \<Rightarrow> 's \<Rightarrow> error + 'b list \<times> 's" where
  "map_stE f [] s = Inr ([], s)"
| "map_stE f (x # xs) s =
     (case f x s of
        Inl e \<Rightarrow> Inl e
      | Inr (y, s1) \<Rightarrow>
          (case map_stE f xs s1 of
             Inl e \<Rightarrow> Inl e
           | Inr (ys, s2) \<Rightarrow> Inr (y # ys, s2)))"

text \<open>The same for a body that may raise and draws nothing.\<close>

fun mapE :: "('a \<Rightarrow> error + 'b) \<Rightarrow> 'a list \<Rightarrow> error + 'b list" where
  "mapE f [] = Inr []"
| "mapE f (x # xs) =
     (case f x of
        Inl e \<Rightarrow> Inl e
      | Inr y \<Rightarrow> (case mapE f xs of Inl e \<Rightarrow> Inl e | Inr ys \<Rightarrow> Inr (y # ys)))"

subsection \<open>Mathematical library functions\<close>

text \<open>\<^verbatim>\<open>math.atan2(y, x)\<close> on reals (the sign of a zero is not modelled).\<close>

definition atan2 :: "real \<Rightarrow> real \<Rightarrow> real" where
  "atan2 y x =
    (if 0 < x then arctan (y / x)
     else if x < 0 then (if 0 \<le> y then arctan (y / x) + pi else arctan (y / x) - pi)
     else if 0 < y then pi / 2
     else if y < 0 then - (pi / 2)
     else 0)"

definition radians :: "real \<Rightarrow> real" where
  "radians d = d * pi / 180"

text \<open>\<^verbatim>\<open>np.linspace(a, b, k)\<close>: \<open>k\<close> evenly spaced values from \<open>a\<close> to \<open>b\<close> inclusive.\<close>

definition np_linspace :: "real \<Rightarrow> real \<Rightarrow> nat \<Rightarrow> real list" where
  "np_linspace a b k =
    (if k = 1 then [a] else map (\<lambda>i. a + real i * ((b - a) / real (k - 1))) [0..<k])"

text \<open>
  \<^verbatim>\<open>np.convolve(a, v, mode="same")\<close>. numpy swaps the operands when \<open>v\<close> is the
  longer one, raises \<^verbatim>\<open>ValueError\<close> on an empty operand, and returns the centred
  part of the full convolution, as long as the longer operand.
\<close>

definition conv_full :: "real list \<Rightarrow> real list \<Rightarrow> nat \<Rightarrow> real" where
  "conv_full a v m =
    (\<Sum>t\<leftarrow>[0..<length a]. if t \<le> m \<and> m - t < length v then a ! t * v ! (m - t) else 0)"

definition np_convolve_same :: "real list \<Rightarrow> real list \<Rightarrow> error + real list" where
  "np_convolve_same a v =
    (let (a', v') = (if length a < length v then (v, a) else (a, v)) in
     if a' = [] \<or> v' = [] then Inl ValueError
     else Inr (map (\<lambda>k. conv_full a' v' (k + (length v' - 1) div 2)) [0..<length a']))"

subsection \<open>Hand-drawing simulation\<close>

definition wobble_point ::
  "('p, 'n) rng \<Rightarrow> point list \<Rightarrow> real \<Rightarrow> real \<Rightarrow> real \<Rightarrow> real \<Rightarrow> real \<Rightarrow> nat \<Rightarrow> 'p
     \<Rightarrow> error + point \<times> 'p" where
  "wobble_point R points intensity freq1 freq2 phase1 phase2 i s =
    (let n = length points;
         (x, y) = points ! i
     in case py_div (real i) (real (max (n - 1) 1)) of
          Inl e \<Rightarrow> Inl e
        | Inr t \<Rightarrow>
            let (dx, dy) =
                  (if i = 0 then
                     (fst (points ! 1) - fst (points ! 0), snd (points ! 1) - snd (points ! 0))
                   else if i = n - 1 then
                     (fst (points ! (n - 1)) - fst (points ! (n - 2)),
                      snd (points ! (n - 1)) - snd (points ! (n - 2)))
                   else
                     (fst (points ! (i + 1)) - fst (points ! (i - 1)),
                      snd (points ! (i + 1)) - snd (points ! (i - 1))));
                mag = sqrt (dx * dx + dy * dy) + 1 / 10 ^ 8
            in case py_div (- dy) mag of
                 Inl e \<Rightarrow> Inl e
               | Inr nx \<Rightarrow>
                   (case py_div dx mag of
                      Inl e \<Rightarrow> Inl e
                    | Inr ny \<Rightarrow>
                        let (g, s1) = rnd_gauss R 0 (intensity * (3 / 10)) s;
                            wobble = sin (t * real n * freq1 + phase1) * intensity * (6 / 10)
                                     + sin (t * real n * freq2 + phase2) * intensity * (3 / 10)
                                     + g
                        in Inr ((x + nx * wobble, y + ny * wobble), s1)))"

definition add_hand_wobble ::
  "('p, 'n) rng \<Rightarrow> point list \<Rightarrow> real \<Rightarrow> 'p \<Rightarrow> error + point list \<times> 'p" where
  "add_hand_wobble R points intensity s =
    (let n = length points in
     if n < 2 then Inr (points, s)
     else
       let (freq1, s1) = rnd_uniform R (5 / 100) (15 / 100) s;
           (freq2, s2) = rnd_uniform R (2 / 10) (4 / 10) s1;
           (phase1, s3) = rnd_uniform R 0 (2 * pi) s2;
           (phase2, s4) = rnd_uniform R 0 (2 * pi) s3
       in map_stE (wobble_point R points intensity freq1 freq2 phase1 phase2) [0..<n] s4)"

definition curvature_at :: "point list \<Rightarrow> nat \<Rightarrow> real" where
  "curvature_at points i =
    (let (ax, ay) = points ! (i - 1);
         (bx, by) = points ! i;
         (cx, cy) = points ! (i + 1);
         v1x = bx - ax; v1y = by - ay;
         v2x = cx - bx; v2y = cy - by;
         cross = \<bar>v1x * v2y - v1y * v2x\<bar>;
         dot = v1x * v2x + v1y * v2y
     in atan2 cross (dot + 1 / 10 ^ 8))"

definition curvatures_of :: "point list \<Rightarrow> real list" where
  "curvatures_of points = [0] @ map (curvature_at points) [1..<length points - 1] @ [0]"

fun keep_points ::
  "('p, 'n) rng \<Rightarrow> point list \<Rightarrow> real list \<Rightarrow> nat list \<Rightarrow> 'p \<Rightarrow> point list \<times> 'p" where
  "keep_points R points curvatures [] s = ([], s)"
| "keep_points R points curvatures (i # is) s =
     (let keep_prob = 3 / 10 + 7 / 10 * min (curvatures ! i / (1 / 2)) 1;
          (u, s1) = rnd_random R s;
          (rest, s2) = keep_points R points curvatures is s1
      in (if u < keep_prob then points ! i # rest else rest, s2))"

definition simulate_stroke_speed ::
  "('p, 'n) rng \<Rightarrow> point list \<Rightarrow> 'p \<Rightarrow> point list \<times> 'p" where
  "simulate_stroke_speed R points s =
    (if length points < 5 then (points, s)
     else
       let curvatures = curvatures_of points;
           (kept, s1) = keep_points R points curvatures [1..<length points] s;
           result = points ! 0 # kept
       in if length result < 3 then (points, s1) else (result, s1))"

text \<open>The kernel before and after \<^verbatim>\<open>kernel /= kernel.sum()\<close>.\<close>

definition gaussian_weights :: "real \<Rightarrow> real list" where
  "gaussian_weights sigma =
    (let kernel_size = max 3 (py_int (sigma * 2) OR 1)
     in map (\<lambda>x. exp (- (1 / 2) * x\<^sup>2)) (np_linspace (- 2) 2 (nat kernel_size)))"

definition gaussian_kernel :: "real \<Rightarrow> error + real list" where
  "gaussian_kernel sigma =
    (let kernel = gaussian_weights sigma
     in np_divide kernel (sum_list kernel))"

definition elastic_deform ::
  "('p, 'n) rng \<Rightarrow> point list \<Rightarrow> real \<Rightarrow> real \<Rightarrow> 'n \<Rightarrow> error + point list \<times> 'n" where
  "elastic_deform R points alpha sigma s =
    (if length points < 2 then Inr (points, s)
     else
       let n = length points;
           (r1, s1) = np_randn R n s;
           (r2, s2) = np_randn R n s1;
           dx_field = map (\<lambda>v. v * alpha) r1;
           dy_field = map (\<lambda>v. v * alpha) r2
       in case gaussian_kernel sigma of
            Inl e \<Rightarrow> Inl e
          | Inr kern \<Rightarrow>
              (case np_convolve_same dx_field kern of
                 Inl e \<Rightarrow> Inl e
               | Inr dx_smooth \<Rightarrow>
                   (case np_convolve_same dy_field kern of
                      Inl e \<Rightarrow> Inl e
                    | Inr dy_smooth \<Rightarrow>
                        (case mapE (\<lambda>i. if i < length dx_smooth \<and> i < length dy_smooth
                                         then Inr (fst (points ! i) + dx_smooth ! i,
                                                   snd (points ! i) + dy_smooth ! i)
                                         else Inl IndexError)
                                   [0..<n] of
                           Inl e \<Rightarrow> Inl e
                         | Inr result \<Rightarrow> Inr (result, s2)))))"

subsection \<open>Configuration\<close>

definition SHAPE_NAMES :: "string list" where
  "SHAPE_NAMES =
    [''circle'', ''square'', ''rectangle'', ''triangle'', ''arrow-left'', ''arrow-right'',
     ''arrow-up'', ''arrow-down'', ''diamond'', ''line'']"

definition NUM_CLASSES :: nat where
  "NUM_CLASSES = 10"

definition CLOSED_SHAPES :: "string set" where
  "CLOSED_SHAPES = {''circle'', ''square'', ''rectangle'', ''triangle'', ''diamond''}"

text \<open>The dictionary \<^verbatim>\<open>ROTATION_RANGES\<close>, in degrees.\<close>

definition ROTATION_RANGES :: "string \<rightharpoonup> real \<times> real" where
  "ROTATION_RANGES =
    map_of
      [(''circle'', (- 180, 180)),
       (''square'', (- 15, 15)),
       (''rectangle'', (- 15, 15)),
       (''triangle'', (- 30, 30)),
       (''arrow-left'', (- 10, 10)),
       (''arrow-right'', (- 10, 10)),
       (''arrow-up'', (- 10, 10)),
       (''arrow-down'', (- 10, 10)),
       (''diamond'', (- 15, 15)),
       (''line'', (- 180, 180))]"

text \<open>
  The module constants \<^verbatim>\<open>SAMPLES_PER_CLASS\<close> and \<^verbatim>\<open>CANVAS_SIZE\<close> are the
  configuration of a run; \<open>default_config\<close> holds the values of the source.
\<close>

record config =
  samples_per_class :: nat
  canvas_size :: nat

definition default_config :: config where
  "default_config = \<lparr>samples_per_class = 4000, canvas_size = 48\<rparr>"

subsection \<open>Shape generators\<close>

text \<open>
  Every generator draws its parameters in the order of the source and returns the
  polyline with the next state of \<^verbatim>\<open>random\<close>. The generators divide by drawn values
  (\<^verbatim>\<open>num_points\<close>, \<^verbatim>\<open>shaft_points - 1\<close>, \<^verbatim>\<open>eccentricity\<close>, \<^verbatim>\<open>aspect\<close>); for a
  source inside its documented ranges none of these is zero, so the division is
  written as HOL's.
\<close>

definition generate_circle :: "('p, 'n) rng \<Rightarrow> 'p \<Rightarrow> error + point list \<times> 'p" where
  "generate_circle R s =
    (let cx = 50; cy = 50;
         (u, s1) = rnd_random R s;
         base_r = 25 + u * 15;
         (eccentricity, s2) = rnd_uniform R (85 / 100) (115 / 100) s1;
         (num_points, s3) = rnd_randint R 50 80 s2;
         (start_angle, s4) = rnd_uniform R 0 (2 * pi) s3
     in Inr (map_st (\<lambda>i s.
                let theta = start_angle + (real_of_int i / real_of_int num_points) * 2 * pi;
                    (j, s') = rnd_uniform R (- (8 / 100)) (8 / 100) s;
                    r = base_r * (1 + j);
                    rx = r * eccentricity;
                    ry = r / eccentricity
                in ((cx + rx * cos theta, cy + ry * sin theta), s'))
              (py_range 0 (num_points + 1)) s4))"

definition generate_square :: "('p, 'n) rng \<Rightarrow> 'p \<Rightarrow> error + point list \<times> 'p" where
  "generate_square R s =
    (let (u, s1) = rnd_random R s;
         sz = 40 + u * 25;
         cx = 50; cy = 50;
         half = sz / 2;
         (skew, s2) = rnd_uniform R (- (8 / 100)) (8 / 100) s1;
         (side_var, s3) = map_st (\<lambda>_. rnd_uniform R (9 / 10) (11 / 10)) [0..<4] s2;
         corners =
           [(cx - half * side_var ! 0, cy - half * side_var ! 1),
            (cx + half * side_var ! 0, cy - half * side_var ! 1 + skew * sz),
            (cx + half * side_var ! 2 + skew * sz, cy + half * side_var ! 3),
            (cx - half * side_var ! 2, cy + half * side_var ! 3),
            (cx - half * side_var ! 0, cy - half * side_var ! 1)];
         (num_points, s4) = rnd_randint R 40 70 s3
     in case interpolate_along_edges corners num_points of
          Inl e \<Rightarrow> Inl e
        | Inr pts \<Rightarrow> Inr (pts, s4))"

definition generate_rectangle :: "('p, 'n) rng \<Rightarrow> 'p \<Rightarrow> error + point list \<times> 'p" where
  "generate_rectangle R s =
    (let (u, s1) = rnd_random R s;
         w = 50 + u * 30;
         (aspect, s2) = rnd_uniform R (14 / 10) (28 / 10) s1;
         h = w / aspect;
         cx = 50; cy = 50;
         (skew, s3) = rnd_uniform R (- (6 / 100)) (6 / 100) s2;
         corners0 =
           [(cx - w / 2, cy - h / 2),
            (cx + w / 2, cy - h / 2 + skew * h),
            (cx + w / 2 + skew * w, cy + h / 2),
            (cx - w / 2, cy + h / 2),
            (cx - w / 2, cy - h / 2)];
         (flip, s4) = rnd_random R s3;
         corners = (if flip < 1 / 2 then rectangle_flip corners0 else corners0);
         (num_points, s5) = rnd_randint R 40 70 s4
     in case interpolate_along_edges corners num_points of
          Inl e \<Rightarrow> Inl e
        | Inr pts \<Rightarrow> Inr (pts, s5))"

definition generate_triangle :: "('p, 'n) rng \<Rightarrow> 'p \<Rightarrow> error + point list \<times> 'p" where
  "generate_triangle R s =
    (let cx = 50; cy = 50;
         (u, s1) = rnd_random R s;
         base_r = 25 + u * 15;
         (drawn, s2) = map_st (\<lambda>_. rnd_uniform R 0 (2 * pi)) [0..<3] s1;
         angles = sort drawn;
         (vertices0, s3) =
           map_st (\<lambda>a s. let (j, s') = rnd_uniform R (8 / 10) (12 / 10) s;
                              r = base_r * j
                          in ((cx + r * cos a, cy + r * sin a), s'))
                  angles s2;
         vertices = vertices0 @ [vertices0 ! 0];
         (num_points, s4) = rnd_randint R 35 60 s3
     in case interpolate_along_edges vertices num_points of
          Inl e \<Rightarrow> Inl e
        | Inr pts \<Rightarrow> Inr (pts, s4))"

definition generate_arrow :: "('p, 'n) rng \<Rightarrow> string \<Rightarrow> 'p \<Rightarrow> error + point list \<times> 'p" where
  "generate_arrow R direction s =
    (let (u, s1) = rnd_random R s;
         len = 45 + u * 25;
         cx = 50; cy = 50;
         (u', s2) = rnd_random R s1;
         head_size = 14 + u' * 10;
         (j, s3) = rnd_uniform R (- (15 / 100)) (15 / 100) s2;
         head_angle = pi / 6 + j;
         (shaft_points, s4) = rnd_randint R 20 40 s3;
         (curvature, s5) = rnd_uniform R (- 3) 3 s4;
         (start, tip, shaft_dir) =
           (if direction = ''right'' then ((cx - len / 2, cy), (cx + len / 2, cy), (1, 0))
            else if direction = ''left'' then ((cx + len / 2, cy), (cx - len / 2, cy), (- 1, 0))
            else if direction = ''up'' then ((cx, cy + len / 2), (cx, cy - len / 2), (0, - 1))
            else ((cx, cy - len / 2), (cx, cy + len / 2), (0, 1)));
         shaft =
           map (\<lambda>i. let t = real_of_int i / real_of_int (shaft_points - 1);
                         x = fst start + t * (fst tip - fst start);
                         y = snd start + t * (snd tip - snd start);
                         perp_x = - snd shaft_dir;
                         perp_y = fst shaft_dir;
                         curve_offset = curvature * sin (t * pi)
                     in (x + perp_x * curve_offset, y + perp_y * curve_offset))
               (py_range 0 shaft_points);
         (tx, ty) = tip;
         (dx, dy) = shaft_dir;
         angle = atan2 dy dx;
         wing1 = (tx - head_size * cos (angle - head_angle),
                  ty - head_size * sin (angle - head_angle));
         wing2 = (tx - head_size * cos (angle + head_angle),
                  ty - head_size * sin (angle + head_angle))
     in Inr (shaft @ [wing1, tip, wing2], s5))"

definition generate_arrow_left :: "('p, 'n) rng \<Rightarrow> 'p \<Rightarrow> error + point list \<times> 'p" where
  "generate_arrow_left R = generate_arrow R ''left''"

definition generate_arrow_right :: "('p, 'n) rng \<Rightarrow> 'p \<Rightarrow> error + point list \<times> 'p" where
  "generate_arrow_right R = generate_arrow R ''right''"

definition generate_arrow_up :: "('p, 'n) rng \<Rightarrow> 'p \<Rightarrow> error + point list \<times> 'p" where
  "generate_arrow_up R = generate_arrow R ''up''"

definition generate_arrow_down :: "('p, 'n) rng \<Rightarrow> 'p \<Rightarrow> error + point list \<times> 'p" where
  "generate_arrow_down R = generate_arrow R ''down''"

definition generate_diamond :: "('p, 'n) rng \<Rightarrow> 'p \<Rightarrow> error + point list \<times> 'p" where
  "generate_diamond R s =
    (let (u, s1) = rnd_random R s;
         sz = 40 + u * 25;
         cx = 50; cy = 50;
         (h_stretch, s2) = rnd_uniform R (11 / 10) (15 / 10) s1;
         (w_stretch, s3) = rnd_uniform R (7 / 10) 1 s2;
         (axis_var, s4) = map_st (\<lambda>_. rnd_uniform R (93 / 100) (107 / 100)) [0..<4] s3;
         corners =
           [(cx, cy - sz / 2 * h_stretch * axis_var ! 0),
            (cx + sz / 2 * w_stretch * axis_var ! 1, cy),
            (cx, cy + sz / 2 * h_stretch * axis_var ! 2),
            (cx - sz / 2 * w_stretch * axis_var ! 3, cy),
            (cx, cy - sz / 2 * h_stretch * axis_var ! 0)];
         (num_points, s5) = rnd_randint R 35 60 s4
     in case interpolate_along_edges corners num_points of
          Inl e \<Rightarrow> Inl e
        | Inr pts \<Rightarrow> Inr (pts, s5))"

definition generate_line :: "('p, 'n) rng \<Rightarrow> 'p \<Rightarrow> error + point list \<times> 'p" where
  "generate_line R s =
    (let (u, s1) = rnd_random R s;
         len = 45 + u * 35;
         cx = 50; cy = 50;
         (angle, s2) = rnd_uniform R 0 pi s1;
         x1 = cx - (len / 2) * cos angle;
         y1 = cy - (len / 2) * sin angle;
         x2 = cx + (len / 2) * cos angle;
         y2 = cy + (len / 2) * sin angle;
         (num_points, s3) = rnd_randint R 20 40 s2;
         (curvature, s4) = rnd_uniform R (- 2) 2 s3
     in Inr (map (\<lambda>i. let t = real_of_int i / real_of_int (num_points - 1);
                           x = x1 + t * (x2 - x1);
                           y = y1 + t * (y2 - y1);
                           perp_x = - (y2 - y1) / (len + 1 / 10 ^ 8);
                           perp_y = (x2 - x1) / (len + 1 / 10 ^ 8);
                           offset = curvature * sin (t * pi)
                       in (x + perp_x * offset, y + perp_y * offset))
                 (py_range 0 num_points), s4))"

text \<open>The dictionary \<^verbatim>\<open>GENERATORS\<close>.\<close>

definition GENERATORS ::
  "('p, 'n) rng \<Rightarrow> string \<rightharpoonup> ('p \<Rightarrow> error + point list \<times> 'p)" where
  "GENERATORS R =
    map_of
      [(''circle'', generate_circle R),
       (''square'', generate_square R),
       (''rectangle'', generate_rectangle R),
       (''triangle'', generate_triangle R),
       (''arrow-left'', generate_arrow_left R),
       (''arrow-right'', generate_arrow_right R),
       (''arrow-up'', generate_arrow_up R),
       (''arrow-down'', generate_arrow_down R),
       (''diamond'', generate_diamond R),
       (''line'', generate_line R)]"

subsection \<open>Augmentation\<close>

text \<open>\<^verbatim>\<open>rotate\<close> of the source; the name \<open>rotate\<close> is taken by a list function.\<close>

definition rotate_points :: "point list \<Rightarrow> real \<Rightarrow> error + point list" where
  "rotate_points points angle =
    (case py_div (sum_list (map fst points)) (real (length points)) of
       Inl e \<Rightarrow> Inl e
     | Inr cx \<Rightarrow>
         (case py_div (sum_list (map snd points)) (real (length points)) of
            Inl e \<Rightarrow> Inl e
          | Inr cy \<Rightarrow>
              let cos_a = cos angle;
                  sin_a = sin angle
              in Inr (map (\<lambda>(x, y). (cx + (x - cx) * cos_a - (y - cy) * sin_a,
                                       cy + (x - cx) * sin_a + (y - cy) * cos_a))
                          points)))"

definition scale :: "point list \<Rightarrow> real \<Rightarrow> error + point list" where
  "scale points factor =
    (case py_div (sum_list (map fst points)) (real (length points)) of
       Inl e \<Rightarrow> Inl e
     | Inr cx \<Rightarrow>
         (case py_div (sum_list (map snd points)) (real (length points)) of
            Inl e \<Rightarrow> Inl e
          | Inr cy \<Rightarrow>
              Inr (map (\<lambda>(x, y). (cx + (x - cx) * factor, cy + (y - cy) * factor)) points)))"

definition translate :: "point list \<Rightarrow> real \<Rightarrow> real \<Rightarrow> point list" where
  "translate points dx dy = map (\<lambda>(x, y). (x + dx, y + dy)) points"

definition add_noise :: "('p, 'n) rng \<Rightarrow> point list \<Rightarrow> real \<Rightarrow> 'p \<Rightarrow> point list \<times> 'p" where
  "add_noise R points std s =
    map_st (\<lambda>(x, y) s. let (gx, s1) = rnd_gauss R 0 std s;
                            (gy, s2) = rnd_gauss R 0 std s1
                        in ((x + gx, y + gy), s2))
           points s"

text \<open>
  The two optional stages of \<^verbatim>\<open>augment\<close>, each with the draw that gates it. The
  state of the pipeline is the pair of the states of \<^verbatim>\<open>random\<close> and \<^verbatim>\<open>np.random\<close>.
\<close>

definition stroke_speed_stage ::
  "('p, 'n) rng \<Rightarrow> point list \<Rightarrow> 'p \<Rightarrow> point list \<times> 'p" where
  "stroke_speed_stage R points s =
    (let (u, s1) = rnd_random R s in
     if u < 1 / 2 then simulate_stroke_speed R points s1 else (points, s1))"

definition elastic_stage ::
  "('p, 'n) rng \<Rightarrow> point list \<Rightarrow> 'p \<times> 'n \<Rightarrow> error + point list \<times> 'p \<times> 'n" where
  "elastic_stage R points st =
    (let (u, s1) = rnd_random R (fst st) in
     if u < 6 / 10 then
       let (alpha, s2) = rnd_uniform R 2 6 s1 in
       case elastic_deform R points alpha 3 (snd st) of
         Inl e \<Rightarrow> Inl e
       | Inr (points', n1) \<Rightarrow> Inr (points', s2, n1)
     else Inr (points, s1, snd st))"

definition augment ::
  "('p, 'n) rng \<Rightarrow> point list \<Rightarrow> string \<Rightarrow> 'p \<times> 'n \<Rightarrow> error + point list \<times> 'p \<times> 'n" where
  "augment R points shape_name st =
    (let is_closed = (shape_name \<in> CLOSED_SHAPES) in
     case ROTATION_RANGES shape_name of
       None \<Rightarrow> Inl KeyError
     | Some (rot_min, rot_max) \<Rightarrow>
         let (intensity, s1) = rnd_uniform R (5 / 10) (25 / 10) (fst st) in
         case add_hand_wobble R points intensity s1 of
           Inl e \<Rightarrow> Inl e
         | Inr (points1, s2) \<Rightarrow>
             let (points2, s3) = simulate_incomplete_shape R points1 is_closed s2;
                 (points3, s4) = stroke_speed_stage R points2 s3
             in case elastic_stage R points3 (s4, snd st) of
                  Inl e \<Rightarrow> Inl e
                | Inr (points4, s5, n1) \<Rightarrow>
                    let (angle_deg, s6) = rnd_uniform R rot_min rot_max s5 in
                    case rotate_points points4 (radians angle_deg) of
                      Inl e \<Rightarrow> Inl e
                    | Inr points5 \<Rightarrow>
                        let (scale_factor, s7) = rnd_uniform R (6 / 10) (18 / 10) s6 in
                        case scale points5 scale_factor of
                          Inl e \<Rightarrow> Inl e
                        | Inr points6 \<Rightarrow>
                            let (tx, s8) = rnd_uniform R (- 8) 8 s7;
                                (ty, s9) = rnd_uniform R (- 8) 8 s8;
                                points7 = translate points6 tx ty;
                                (noise_std, s10) = rnd_uniform R (3 / 10) (15 / 10) s9;
                                (points8, s11) = add_noise R points7 noise_std s10
                            in Inr (points8, s11, n1))"

subsection \<open>Dataset generation\<close>

text \<open>
  The progress messages that \<^verbatim>\<open>generate_dataset\<close> prints are not part of the model.
  The labels are the class indices, natural numbers.
\<close>

text \<open>\<^verbatim>\<open>np.array(images)[..., np.newaxis]\<close> wraps every pixel in a channel axis.\<close>

definition add_channel :: "image \<Rightarrow> real list list list" where
  "add_channel img = map (map (\<lambda>v. [v])) img"

text \<open>One pass of the inner loop body: generate, augment, rasterize.\<close>

definition make_sample ::
  "('p, 'n) rng \<Rightarrow> config \<Rightarrow> string \<Rightarrow> ('p \<Rightarrow> error + point list \<times> 'p) \<Rightarrow> 'p \<times> 'n
     \<Rightarrow> error + image \<times> 'p \<times> 'n" where
  "make_sample R cfg shape_name gen_fn st =
    (case gen_fn (fst st) of
       Inl e \<Rightarrow> Inl e
     | Inr (points, s1) \<Rightarrow>
         (case augment R points shape_name (s1, snd st) of
            Inl e \<Rightarrow> Inl e
          | Inr (points', st') \<Rightarrow>
              (case rasterize points' (canvas_size cfg) STROKE_WIDTH of
                 Inl e \<Rightarrow> Inl e
               | Inr img \<Rightarrow> Inr (img, st'))))"

text \<open>\<^verbatim>\<open>for _ in range(SAMPLES_PER_CLASS)\<close>, appending to \<open>images\<close> and \<open>labels\<close>.\<close>

fun class_loop ::
  "('p, 'n) rng \<Rightarrow> config \<Rightarrow> nat \<Rightarrow> string \<Rightarrow> ('p \<Rightarrow> error + point list \<times> 'p) \<Rightarrow> nat
     \<Rightarrow> image list \<times> nat list \<Rightarrow> 'p \<times> 'n \<Rightarrow> error + (image list \<times> nat list) \<times> 'p \<times> 'n" where
  "class_loop R cfg class_idx shape_name gen_fn 0 acc st = Inr (acc, st)"
| "class_loop R cfg class_idx shape_name gen_fn (Suc k) acc st =
     (case make_sample R cfg shape_name gen_fn st of
        Inl e \<Rightarrow> Inl e
      | Inr (img, st') \<Rightarrow>
          class_loop R cfg class_idx shape_name gen_fn k
            (fst acc @ [img], snd acc @ [class_idx]) st')"

text \<open>\<^verbatim>\<open>for class_idx, shape_name in enumerate(SHAPE_NAMES)\<close>.\<close>

fun dataset_loop ::
  "('p, 'n) rng \<Rightarrow> config \<Rightarrow> (nat \<times> string) list \<Rightarrow> image list \<times> nat list \<Rightarrow> 'p \<times> 'n
     \<Rightarrow> error + (image list \<times> nat list) \<times> 'p \<times> 'n" where
  "dataset_loop R cfg [] acc st = Inr (acc, st)"
| "dataset_loop R cfg ((class_idx, shape_name) # rest) acc st =
     (case GENERATORS R shape_name of
        None \<Rightarrow> Inl KeyError
      | Some gen_fn \<Rightarrow>
          (case class_loop R cfg class_idx shape_name gen_fn (samples_per_class cfg) acc st of
             Inl e \<Rightarrow> Inl e
           | Inr (acc', st') \<Rightarrow> dataset_loop R cfg rest acc' st'))"

definition generate_dataset ::
  "('p, 'n) rng \<Rightarrow> config \<Rightarrow> 'p \<times> 'n
     \<Rightarrow> error + (real list list list list \<times> nat list) \<times> 'p \<times> 'n" where
  "generate_dataset R cfg st =
    (case dataset_loop R cfg (enumerate 0 SHAPE_NAMES) ([], []) st of
       Inl e \<Rightarrow> Inl e
     | Inr ((images, labels), st') \<Rightarrow> Inr ((map add_channel images, labels), st'))"

text \<open>The label sequence of a class-major dataset: \<open>n\<close> copies of each class index in turn.\<close>

definition class_major :: "nat \<Rightarrow> nat \<Rightarrow> nat list" where
  "class_major n k = concat (map (replicate n) [0..<k])"

subsection \<open>Finite coordinates\<close>

text \<open>Every coordinate of the polyline has magnitude at most \<open>B\<close>.\<close>

definition coords_within :: "real \<Rightarrow> point list \<Rightarrow> bool" where
  "coords_within B pts \<longleftrightarrow> (\<forall>p \<in> set pts. \<bar>fst p\<bar> \<le> B \<and> \<bar>snd p\<bar> \<le> B)"


section \<open>Properties\<close>

subsection \<open>The orientation flip\<close>

lemma rectangle_flip_swap: "rectangle_flip corners = map prod.swap corners"
  by (simp add: rectangle_flip_def prod.swap_def case_prod_beta)

text \<open>
  C9, as the code has it. The flip branch of \<^verbatim>\<open>generate_rectangle\<close> is a genuine
  transposition: every corner \<open>(x, y)\<close> becomes \<open>(y, x)\<close>, and flipping twice gives
  the corner list back.
\<close>

theorem rectangle_flip_transposes:
  "rectangle_flip corners = map (\<lambda>(x, y). (y, x)) corners
   \<and> rectangle_flip (rectangle_flip corners) = corners"
  by (simp add: rectangle_flip_def case_prod_beta comp_def)

text \<open>
  C9, as the specification states it, fails: the flip of the single corner \<open>(0, 1)\<close>
  is \<open>(1, 0)\<close>.
\<close>

theorem rectangle_flip_not_identity:
  "rectangle_flip [(0, 1)] \<noteq> [(0, 1)]"
  by (simp add: rectangle_flip_def)

subsection \<open>The random sources\<close>

lemma low_rng_ok: "rng_ok low_rng"
  by (simp add: rng_ok_def low_rng_def)

lemma rng_ok_uniform:
  "rng_ok R \<Longrightarrow> a \<le> b \<Longrightarrow> a \<le> fst (rnd_uniform R a b s) \<and> fst (rnd_uniform R a b s) \<le> b"
  by (simp add: rng_ok_def)

subsection \<open>Incomplete shapes\<close>

lemma py_int_nonneg: "0 \<le> x \<Longrightarrow> py_int x = \<lfloor>x\<rfloor>"
  by (simp add: py_int_def)

lemma py_slice_to_take: "0 \<le> k \<Longrightarrow> py_slice_to xs k = take (nat k) xs"
  by (simp add: py_slice_to_def)

lemma incomplete_cut_le:
  assumes "r \<le> 95 / 100" "0 \<le> r" "3 \<le> n"
  shows "nat (max 3 \<lfloor>real n * r\<rfloor>) \<le> n"
proof -
  have "real n * r \<le> real n" using assms by (simp add: mult_left_le)
  then have "\<lfloor>real n * r\<rfloor> \<le> int n" by linarith
  with assms(3) show ?thesis by simp
qed

lemma high_rng_ok: "rng_ok high_rng"
  by (simp add: rng_ok_def high_rng_def low_rng_def)

text \<open>
  C8. \<^verbatim>\<open>simulate_incomplete_shape\<close> returns an open shape unchanged, drawing
  nothing. On a closed shape it draws \<open>u = random.random()\<close>: when \<open>u > 0.4\<close> it
  returns the input unchanged; otherwise it draws \<open>r = random.uniform(0.80, 0.95)\<close>,
  which lies in \<open>[0.80, 0.95]\<close>, and returns the slice
  \<^verbatim>\<open>points[:max(3, int(len(points) * r))]\<close>, whose length is
  \<open>max(3, floor(len * r))\<close> as soon as the input has three points. In every case the
  result is a prefix of the input and keeps at least \<open>min(3, len)\<close> points.
\<close>

theorem simulate_incomplete_shape_prefix:
  assumes "rng_ok R"
  shows "(\<not> is_closed \<longrightarrow> simulate_incomplete_shape R points is_closed s = (points, s))
    \<and> (is_closed \<and> 4 / 10 < fst (rnd_random R s) \<longrightarrow>
         simulate_incomplete_shape R points is_closed s = (points, snd (rnd_random R s)))
    \<and> (is_closed \<and> fst (rnd_random R s) \<le> 4 / 10 \<longrightarrow>
         80 / 100 \<le> fst (rnd_uniform R (80 / 100) (95 / 100) (snd (rnd_random R s)))
         \<and> fst (rnd_uniform R (80 / 100) (95 / 100) (snd (rnd_random R s))) \<le> 95 / 100
         \<and> simulate_incomplete_shape R points is_closed s
             = (take (nat (max 3 \<lfloor>real (length points)
                   * fst (rnd_uniform R (80 / 100) (95 / 100) (snd (rnd_random R s)))\<rfloor>)) points,
                snd (rnd_uniform R (80 / 100) (95 / 100) (snd (rnd_random R s))))
         \<and> (3 \<le> length points \<longrightarrow>
               int (length (fst (simulate_incomplete_shape R points is_closed s)))
                 = max 3 \<lfloor>real (length points)
                     * fst (rnd_uniform R (80 / 100) (95 / 100) (snd (rnd_random R s)))\<rfloor>))
    \<and> min 3 (length points) \<le> length (fst (simulate_incomplete_shape R points is_closed s))
    \<and> prefix (fst (simulate_incomplete_shape R points is_closed s)) points"
proof (cases "is_closed \<and> \<not> 4 / 10 < fst (rnd_random R s)")
  case False
  then have eq: "simulate_incomplete_shape R points is_closed s
      = (points, if is_closed then snd (rnd_random R s) else s)"
    by (auto simp: simulate_incomplete_shape_def case_prod_beta)
  from False show ?thesis unfolding eq by auto
next
  case True
  define r where "r = fst (rnd_uniform R (80 / 100) (95 / 100) (snd (rnd_random R s)))"
  define k where "k = max 3 \<lfloor>real (length points) * r\<rfloor>"
  have r: "80 / 100 \<le> r" "r \<le> 95 / 100"
    using rng_ok_uniform [OF assms, of "80 / 100" "95 / 100"] by (simp_all add: r_def)
  then have nonneg: "0 \<le> real (length points) * r" by simp
  have res: "simulate_incomplete_shape R points is_closed s
      = (take (nat k) points, snd (rnd_uniform R (80 / 100) (95 / 100) (snd (rnd_random R s))))"
    using True nonneg
    by (simp add: simulate_incomplete_shape_def py_slice_to_take py_int_nonneg k_def r_def
        case_prod_beta)
  have len: "3 \<le> length points \<Longrightarrow> int (length (take (nat k) points)) = k"
    using incomplete_cut_le [of r "length points"] r by (simp add: k_def)
  have "3 \<le> nat k" by (simp add: k_def)
  then have low: "min 3 (length points) \<le> length (take (nat k) points)" by simp
  have pre: "prefix (take (nat k) points) points" by (rule take_is_prefix)
  show ?thesis
    using True r len low pre unfolding res fst_conv unfolding k_def r_def by auto
qed

theorem simulate_incomplete_shape_prefix_witness:
  "rng_ok low_rng \<and> rng_ok high_rng
   \<and> simulate_incomplete_shape low_rng [(0, 0), (1, 1), (2, 2), (3, 3), (4, 4), (5, 5)] False (0::nat)
       = ([(0, 0), (1, 1), (2, 2), (3, 3), (4, 4), (5, 5)], 0)
   \<and> 4 / 10 < fst (rnd_random high_rng (0::nat))
   \<and> simulate_incomplete_shape high_rng [(0, 0), (1, 1), (2, 2), (3, 3), (4, 4), (5, 5)] True (0::nat)
       = ([(0, 0), (1, 1), (2, 2), (3, 3), (4, 4), (5, 5)], 1)
   \<and> fst (rnd_random low_rng (0::nat)) \<le> 4 / 10
   \<and> fst (rnd_uniform low_rng (80 / 100) (95 / 100) (snd (rnd_random low_rng (0::nat)))) = 8 / 10
   \<and> simulate_incomplete_shape low_rng [(0, 0), (1, 1), (2, 2), (3, 3), (4, 4), (5, 5)] True (0::nat)
       = ([(0, 0), (1, 1), (2, 2), (3, 3)], 2)
   \<and> prefix (fst (simulate_incomplete_shape low_rng
                    [(0, 0), (1, 1), (2, 2), (3, 3), (4, 4), (5, 5)] True (0::nat)))
        [(0, 0), (1, 1), (2, 2), (3, 3), (4, 4), (5, 5)]"
proof -
  have d: "fst (rnd_random low_rng (0::nat)) = 1 / 4" "snd (rnd_random low_rng (0::nat)) = 1"
    "fst (rnd_random high_rng (0::nat)) = 3 / 4" "snd (rnd_random high_rng (0::nat)) = 1"
    "fst (rnd_uniform low_rng (80 / 100) (95 / 100) (1::nat)) = 8 / 10"
    "snd (rnd_uniform low_rng (80 / 100) (95 / 100) (1::nat)) = 2"
    by (simp_all add: low_rng_def high_rng_def)
  have f: "\<lfloor>real (length [(0, 0), (1, 1), (2, 2), (3, 3), (4, 4), (5 :: real, 5 :: real)]) * (8 / 10)\<rfloor> = 4"
    by simp
  show ?thesis
    using simulate_incomplete_shape_prefix
      [OF low_rng_ok, of False "[(0, 0), (1, 1), (2, 2), (3, 3), (4, 4), (5, 5)]" "0::nat"]
      simulate_incomplete_shape_prefix
      [OF high_rng_ok, of True "[(0, 0), (1, 1), (2, 2), (3, 3), (4, 4), (5, 5)]" "0::nat"]
      simulate_incomplete_shape_prefix
      [OF low_rng_ok, of True "[(0, 0), (1, 1), (2, 2), (3, 3), (4, 4), (5, 5)]" "0::nat"]
      low_rng_ok high_rng_ok
    unfolding d f by simp
qed

subsection \<open>Distribution of points along edges\<close>

lemma length_py_range: "length (py_range a b) = nat (b - a)"
  by (simp add: py_range_def)

lemma length_lerp_points: "length (lerp_points p1 p2 n) = nat n"
  by (simp add: lerp_points_def length_py_range)

lemma edge_points_ge2: "2 \<le> edge_points n tot elen"
  by (simp add: edge_points_def)

lemma zip_edges_lengths:
  "map (\<lambda>((a, b), elen). lerp_points a b (edge_points n tot elen))
       (zip es (map edge_length es))
   = map (\<lambda>e. lerp_points (fst e) (snd e) (edge_points n tot (edge_length e))) es"
  by (induction es) (auto simp: case_prod_beta)

lemma length_concat_lerp:
  "int (length (concat (map (\<lambda>e. lerp_points (fst e) (snd e) (edge_points n tot (edge_length e))) es)))
   = (\<Sum>e\<leftarrow>es. edge_points n tot (edge_length e))"
proof (induction es)
  case Nil
  show ?case by simp
next
  case (Cons e es)
  have "0 \<le> edge_points n tot (edge_length e)"
    using edge_points_ge2 [of n tot "edge_length e"] by linarith
  with Cons show ?case by (simp add: length_lerp_points)
qed

lemma interpolate_along_edges_nondegenerate:
  assumes "perimeter vertices \<noteq> 0" "0 \<le> n"
  shows "interpolate_along_edges vertices n =
    Inr (take (nat n) (concat (map (\<lambda>e. lerp_points (fst e) (snd e)
                 (edge_points n (perimeter vertices) (edge_length e))) (edges_of vertices))))"
  using assms
  by (simp add: interpolate_along_edges_def Let_def perimeter_def zip_edges_lengths py_slice_to_def)

lemma interpolate_along_edges_degenerate:
  assumes "perimeter vertices = 0" "vertices \<noteq> []"
  shows "interpolate_along_edges vertices n = Inr (replicate (nat n) (hd vertices))"
  using assms
  by (cases vertices) (simp_all add: interpolate_along_edges_def Let_def perimeter_def py_repeat_def)

lemma interpolate_along_edges_empty: "interpolate_along_edges [] n = Inl IndexError"
  by (simp add: interpolate_along_edges_def edges_of_def)

text \<open>
  What \<^verbatim>\<open>interpolate_along_edges\<close> returns. On a non-empty vertex list, for
  \<open>n \<ge> 1\<close>, the result has at most \<open>n\<close> points: \<open>n\<close> copies of the first vertex
  when the total edge length is zero, and otherwise the first \<open>n\<close> points of the
  concatenation of the per-edge interpolations, where an edge of length \<open>l\<close> receives
  \<open>max(2, round(n * l / total))\<close> points.
\<close>

lemma interpolate_along_edges_result:
  "(vertices = [] \<longrightarrow> interpolate_along_edges vertices n = Inl IndexError)
   \<and> (vertices \<noteq> [] \<and> 1 \<le> n \<longrightarrow>
        (\<exists>pts. interpolate_along_edges vertices n = Inr pts
           \<and> length pts \<le> nat n
           \<and> (perimeter vertices = 0 \<longrightarrow> pts = replicate (nat n) (hd vertices))
           \<and> (perimeter vertices \<noteq> 0 \<longrightarrow>
                pts = take (nat n) (concat (map (\<lambda>e. lerp_points (fst e) (snd e)
                          (edge_points n (perimeter vertices) (edge_length e))) (edges_of vertices)))
                \<and> int (length pts)
                   = min n (\<Sum>e\<leftarrow>edges_of vertices.
                              edge_points n (perimeter vertices) (edge_length e)))))"
proof (intro conjI impI)
  assume "vertices = []"
  then show "interpolate_along_edges vertices n = Inl IndexError"
    by (simp add: interpolate_along_edges_empty)
next
  assume a: "vertices \<noteq> [] \<and> 1 \<le> n"
  show "\<exists>pts. interpolate_along_edges vertices n = Inr pts
           \<and> length pts \<le> nat n
           \<and> (perimeter vertices = 0 \<longrightarrow> pts = replicate (nat n) (hd vertices))
           \<and> (perimeter vertices \<noteq> 0 \<longrightarrow>
                pts = take (nat n) (concat (map (\<lambda>e. lerp_points (fst e) (snd e)
                          (edge_points n (perimeter vertices) (edge_length e))) (edges_of vertices)))
                \<and> int (length pts)
                   = min n (\<Sum>e\<leftarrow>edges_of vertices.
                              edge_points n (perimeter vertices) (edge_length e)))"
  proof (cases "perimeter vertices = 0")
    case True
    with a show ?thesis by (simp add: interpolate_along_edges_degenerate)
  next
    case False
    define L where "L = concat (map (\<lambda>e. lerp_points (fst e) (snd e)
        (edge_points n (perimeter vertices) (edge_length e))) (edges_of vertices))"
    have n0: "0 \<le> n" using a by simp
    have res: "interpolate_along_edges vertices n = Inr (take (nat n) L)"
      using False n0 by (simp add: interpolate_along_edges_nondegenerate L_def)
    have len: "int (length L)
        = (\<Sum>e\<leftarrow>edges_of vertices. edge_points n (perimeter vertices) (edge_length e))"
      unfolding L_def by (rule length_concat_lerp)
    have "int (length (take (nat n) L)) = min n (int (length L))"
      using n0 by (simp add: min_def) linarith
    with len have "int (length (take (nat n) L))
        = min n (\<Sum>e\<leftarrow>edges_of vertices. edge_points n (perimeter vertices) (edge_length e))"
      by simp
    moreover have "length (take (nat n) L) \<le> nat n" by simp
    ultimately show ?thesis using False res unfolding L_def by blast
  qed
qed

lemma unit_square_edges:
  "edges_of [(0, 0), (1, 0), (1, 1), (0, 1)]
   = [((0, 0), (1, 0)), ((1, 0), (1, 1)), ((1, 1), (0, 1))]"
  by (simp add: edges_of_def upt_rec)

text \<open>
  C3 fails on the code. The per-edge counts are rounded one by one and only an
  overshoot is cut by \<^verbatim>\<open>points[:total_points]\<close>: three unit edges and
  \<open>total_points = 10\<close> give \<open>round(10/3) = 3\<close> points per edge, nine points
  in all, not ten.
\<close>

theorem interpolate_along_edges_short:
  "map_sum id length (interpolate_along_edges [(0, 0), (1, 0), (1, 1), (0, 1)] 10) = Inr 9"
  by (simp add: interpolate_along_edges_def unit_square_edges edge_length_def edge_points_def
      py_round_def py_slice_to_def length_lerp_points)

subsection \<open>Normalization\<close>

lemma Max_affine:
  fixes A :: "real set"
  assumes "finite A" "A \<noteq> {}" "0 \<le> s"
  shows "Max ((\<lambda>x. (x - a) * s + c) ` A) = (Max A - a) * s + c"
proof -
  have "mono (\<lambda>x. (x - a) * s + c)"
    using assms(3) by (intro monoI) (simp add: mult_right_mono)
  from mono_Max_commute [OF this assms(1,2)] show ?thesis by simp
qed

lemma Min_affine:
  fixes A :: "real set"
  assumes "finite A" "A \<noteq> {}" "0 \<le> s"
  shows "Min ((\<lambda>x. (x - a) * s + c) ` A) = (Min A - a) * s + c"
proof -
  have "mono (\<lambda>x. (x - a) * s + c)"
    using assms(3) by (intro monoI) (simp add: mult_right_mono)
  from mono_Min_commute [OF this assms(1,2)] show ?thesis by simp
qed

lemma bbox_width_affine:
  assumes "pts \<noteq> []" "0 \<le> s"
  shows "bbox_width (map (\<lambda>(x, y). ((x - a) * s + c, (y - b) * s + d)) pts) = bbox_width pts * s"
proof -
  have "set (map fst (map (\<lambda>(x, y). ((x - a) * s + c, (y - b) * s + d)) pts))
      = (\<lambda>x. (x - a) * s + c) ` set (map fst pts)"
    by (auto simp: image_iff case_prod_beta) force?
  then have "bbox_width (map (\<lambda>(x, y). ((x - a) * s + c, (y - b) * s + d)) pts)
      = ((Max (set (map fst pts)) - a) * s + c) - ((Min (set (map fst pts)) - a) * s + c)"
    using assms unfolding bbox_width_def by (simp only: Max_affine Min_affine List.finite_set set_empty map_is_Nil_conv not_False_eq_True)
  then show ?thesis
    by (simp add: bbox_width_def algebra_simps)
qed

lemma bbox_height_affine:
  assumes "pts \<noteq> []" "0 \<le> s"
  shows "bbox_height (map (\<lambda>(x, y). ((x - a) * s + c, (y - b) * s + d)) pts) = bbox_height pts * s"
proof -
  have "set (map snd (map (\<lambda>(x, y). ((x - a) * s + c, (y - b) * s + d)) pts))
      = (\<lambda>y. (y - b) * s + d) ` set (map snd pts)"
    by (auto simp: image_iff case_prod_beta) force?
  then have "bbox_height (map (\<lambda>(x, y). ((x - a) * s + c, (y - b) * s + d)) pts)
      = ((Max (set (map snd pts)) - b) * s + d) - ((Min (set (map snd pts)) - b) * s + d)"
    using assms unfolding bbox_height_def by (simp only: Max_affine Min_affine List.finite_set set_empty map_is_Nil_conv not_False_eq_True)
  then show ?thesis
    by (simp add: bbox_height_def algebra_simps)
qed

lemma bbox_width_nonneg: "pts \<noteq> [] \<Longrightarrow> 0 \<le> bbox_width pts"
  by (simp add: bbox_width_def)

lemma bbox_height_nonneg: "pts \<noteq> [] \<Longrightarrow> 0 \<le> bbox_height pts"
  by (simp add: bbox_height_def)

lemma normalize_points_nondegenerate:
  assumes "points \<noteq> []" "bbox_width points \<noteq> 0 \<or> bbox_height points \<noteq> 0"
  shows "normalize_points points sz =
    Inr (map (\<lambda>(x, y).
           ((x - Min (set (map fst points))) * normalize_scale points sz
              + (real sz - bbox_width points * normalize_scale points sz) / 2,
            (y - Min (set (map snd points))) * normalize_scale points sz
              + (real sz - bbox_height points * normalize_scale points sz) / 2)) points)"
  using assms
  by (auto simp: normalize_points_def Let_def bbox_width_def bbox_height_def normalize_scale_def)

lemma normalize_points_degenerate:
  assumes "points \<noteq> []" "bbox_width points = 0" "bbox_height points = 0"
  shows "normalize_points points sz = Inr [(real sz / 2, real sz / 2)]"
  using assms
  by (simp add: normalize_points_def Let_def bbox_width_def bbox_height_def)


lemma normalize_scale_bounds:
  assumes "points \<noteq> []"
  shows "0 \<le> normalize_scale points sz"
    and "bbox_width points * normalize_scale points sz \<le> real sz"
    and "bbox_height points * normalize_scale points sz \<le> real sz"
proof -
  define M where "M = max (bbox_width points) (bbox_height points)"
  define E where "E = max M (1 / 10 ^ 8)"
  define k where "k = real sz - 2 * (real sz * (1 / 10))"
  have s: "normalize_scale points sz = k / E"
    by (simp add: normalize_scale_def M_def E_def k_def)
  have E: "0 < E" "M \<le> E" by (simp_all add: E_def)
  have k: "0 \<le> k" "k \<le> real sz" by (simp_all add: k_def)
  have w: "0 \<le> bbox_width points" "bbox_width points \<le> M"
    using assms by (simp_all add: M_def bbox_width_nonneg)
  have h: "0 \<le> bbox_height points" "bbox_height points \<le> M"
    using assms by (simp_all add: M_def bbox_height_nonneg)
  show "0 \<le> normalize_scale points sz" using E k by (simp add: s)
  have r: "0 \<le> d \<Longrightarrow> d \<le> M \<Longrightarrow> d * (k / E) \<le> real sz" for d
  proof -
    assume d: "0 \<le> d" "d \<le> M"
    then have "d / E \<le> 1" using E by simp
    then have "(d / E) * k \<le> 1 * k" using k(1) by (rule mult_right_mono)
    then show ?thesis using k(2) by (simp add: field_simps)
  qed
  show "bbox_width points * normalize_scale points sz \<le> real sz"
    unfolding s using w by (rule r)
  show "bbox_height points * normalize_scale points sz \<le> real sz"
    unfolding s using h by (rule r)
qed

lemma affine_in_canvas:
  fixes x :: real
  assumes "lo \<le> x" "x \<le> hi" "0 \<le> s" "(hi - lo) * s \<le> c"
  shows "0 \<le> (x - lo) * s + (c - (hi - lo) * s) / 2"
    and "(x - lo) * s + (c - (hi - lo) * s) / 2 \<le> c"
proof -
  have a: "0 \<le> (x - lo) * s" using assms by simp
  have "(x - lo) * s \<le> (hi - lo) * s" using assms by (simp add: mult_right_mono)
  with a assms(4) show "0 \<le> (x - lo) * s + (c - (hi - lo) * s) / 2"
    and "(x - lo) * s + (c - (hi - lo) * s) / 2 \<le> c"
    by (simp_all add: field_simps)
qed

text \<open>
  C5, as the code has it. For a non-empty polyline whose bounding box has nonzero width
  or height, every point of \<^verbatim>\<open>normalize_points(points, size)\<close> lies in
  \<open>[0, size] \<times> [0, size]\<close>, and the larger side of the output's bounding box is
  \<open>(size - 2 * padding) * m / max(m, 1e-8)\<close>, where \<open>m\<close> is the larger side of the
  input's bounding box and \<open>padding = 0.1 * size\<close>: it equals \<open>size - 2 * padding\<close>
  when \<open>m \<ge> 1e-8\<close>. A bounding box of zero width and height maps to the single
  point \<open>(size/2, size/2)\<close>.
\<close>

theorem normalize_points_bbox:
  "(points \<noteq> [] \<and> (bbox_width points \<noteq> 0 \<or> bbox_height points \<noteq> 0) \<longrightarrow>
      (\<exists>out. normalize_points points sz = Inr out
         \<and> (\<forall>p \<in> set out. 0 \<le> fst p \<and> fst p \<le> real sz \<and> 0 \<le> snd p \<and> snd p \<le> real sz)
         \<and> max (bbox_width out) (bbox_height out)
             = (real sz - 2 * (real sz * (1 / 10)))
               * max (bbox_width points) (bbox_height points)
               / max (max (bbox_width points) (bbox_height points)) (1 / 10 ^ 8)
         \<and> (1 / 10 ^ 8 \<le> max (bbox_width points) (bbox_height points) \<longrightarrow>
               max (bbox_width out) (bbox_height out) = real sz - 2 * (real sz * (1 / 10)))))
   \<and> (points \<noteq> [] \<and> bbox_width points = 0 \<and> bbox_height points = 0 \<longrightarrow>
        normalize_points points sz = Inr [(real sz / 2, real sz / 2)])"
proof (intro conjI impI)
  assume "points \<noteq> [] \<and> bbox_width points = 0 \<and> bbox_height points = 0"
  then show "normalize_points points sz = Inr [(real sz / 2, real sz / 2)]"
    by (simp add: normalize_points_degenerate)
next
  assume a: "points \<noteq> [] \<and> (bbox_width points \<noteq> 0 \<or> bbox_height points \<noteq> 0)"
  then have ne: "points \<noteq> []" by simp
  define s where "s = normalize_scale points sz"
  define M where "M = max (bbox_width points) (bbox_height points)"
  define out where "out = map (\<lambda>(x, y).
           ((x - Min (set (map fst points))) * s + (real sz - bbox_width points * s) / 2,
            (y - Min (set (map snd points))) * s + (real sz - bbox_height points * s) / 2)) points"
  have res: "normalize_points points sz = Inr out"
    using a by (simp add: normalize_points_nondegenerate out_def s_def)
  have s0: "0 \<le> s" and ws: "bbox_width points * s \<le> real sz"
    and hs: "bbox_height points * s \<le> real sz"
    using normalize_scale_bounds [OF ne, of sz] by (simp_all add: s_def)
  have inside: "0 \<le> fst p \<and> fst p \<le> real sz \<and> 0 \<le> snd p \<and> snd p \<le> real sz"
    if "p \<in> set out" for p
  proof -
    from that obtain x y where xy: "(x, y) \<in> set points"
      and p: "p = ((x - Min (set (map fst points))) * s + (real sz - bbox_width points * s) / 2,
                   (y - Min (set (map snd points))) * s + (real sz - bbox_height points * s) / 2)"
      by (auto simp: out_def)
    have x: "Min (set (map fst points)) \<le> x" "x \<le> Max (set (map fst points))"
      using xy by (force intro: Min_le Max_ge)+
    have y: "Min (set (map snd points)) \<le> y" "y \<le> Max (set (map snd points))"
      using xy by (force intro: Min_le Max_ge)+
    show ?thesis
      using affine_in_canvas [OF x s0, of "real sz"] affine_in_canvas [OF y s0, of "real sz"] ws hs
      by (simp add: p bbox_width_def bbox_height_def)
  qed
  have dims: "bbox_width out = bbox_width points * s" "bbox_height out = bbox_height points * s"
    unfolding out_def using ne s0 by (simp_all add: bbox_width_affine bbox_height_affine)
  have mx: "max (bbox_width out) (bbox_height out) = M * s"
    using s0 by (simp add: dims M_def max_mult_distrib_right)
  have sM: "M * s = (real sz - 2 * (real sz * (1 / 10))) * M / max M (1 / 10 ^ 8)"
    by (simp add: s_def normalize_scale_def M_def)
  have M0: "0 < M"
    using a bbox_width_nonneg [OF ne] bbox_height_nonneg [OF ne] by (auto simp: M_def max_def)
  have big: "max (bbox_width out) (bbox_height out) = real sz - 2 * (real sz * (1 / 10))"
    if "1 / 10 ^ 8 \<le> M"
  proof -
    from that have "max M (1 / 10 ^ 8) = M" by simp
    with M0 show ?thesis by (simp add: mx sM)
  qed
  show "\<exists>out. normalize_points points sz = Inr out
         \<and> (\<forall>p \<in> set out. 0 \<le> fst p \<and> fst p \<le> real sz \<and> 0 \<le> snd p \<and> snd p \<le> real sz)
         \<and> max (bbox_width out) (bbox_height out)
             = (real sz - 2 * (real sz * (1 / 10)))
               * max (bbox_width points) (bbox_height points)
               / max (max (bbox_width points) (bbox_height points)) (1 / 10 ^ 8)
         \<and> (1 / 10 ^ 8 \<le> max (bbox_width points) (bbox_height points) \<longrightarrow>
               max (bbox_width out) (bbox_height out) = real sz - 2 * (real sz * (1 / 10)))"
    using res inside mx sM big unfolding M_def by (intro exI [of _ out]) simp
qed

text \<open>
  C5, as the specification states it, fails below the guard \<open>1e-8\<close>: a bounding box
  of width \<open>1e-9\<close> on a canvas of size 10 is scaled by \<open>8 / 1e-8\<close>, and the output's
  bounding box is \<open>0.8\<close> wide, not \<open>10 - 2 * 1 = 8\<close>.
\<close>

theorem normalize_points_tiny_bbox:
  "bbox_width [(0, 0), (1 / 10 ^ 9, 0)] \<noteq> 0
   \<and> map_sum id (\<lambda>out. max (bbox_width out) (bbox_height out))
        (normalize_points [(0, 0), (1 / 10 ^ 9, 0)] 10) = Inr (4 / 5)
   \<and> (4 / 5 :: real) \<noteq> real 10 - 2 * (real 10 * (1 / 10))"
  by (simp add: normalize_points_def bbox_width_def bbox_height_def Let_def)

theorem normalize_points_bbox_witness:
  "[(0, 0), (3, 4)] \<noteq> [] \<and> bbox_width [(0, 0), (3, 4)] \<noteq> 0
   \<and> 1 / 10 ^ 8 \<le> max (bbox_width [(0, 0), (3, 4)]) (bbox_height [(0, 0), (3, 4)])
   \<and> (\<exists>out. normalize_points [(0, 0), (3, 4)] 10 = Inr out
          \<and> max (bbox_width out) (bbox_height out) = real 10 - 2 * (real 10 * (1 / 10)))
   \<and> [(2, 2), (2, 2)] \<noteq> [] \<and> bbox_width [(2, 2), (2, 2)] = 0 \<and> bbox_height [(2, 2), (2, 2)] = 0
   \<and> normalize_points [(2, 2), (2, 2)] 10 = Inr [(real 10 / 2, real 10 / 2)]"
proof -
  have w: "bbox_width [(0, 0), (3, 4)] = 3" "bbox_height [(0, 0), (3, 4)] = 4"
    "bbox_width [(2, 2), (2, 2)] = 0" "bbox_height [(2, 2), (2, 2)] = 0"
    by (simp_all add: bbox_width_def bbox_height_def)
  show ?thesis
    using normalize_points_bbox [of "[(0, 0), (3, 4)]" 10]
      normalize_points_bbox [of "[(2, 2), (2, 2)]" 10]
    unfolding w by auto
qed

subsection \<open>Rasterization\<close>

lemma foldE_invariant:
  assumes "P acc"
    and "\<And>x a. x \<in> set xs \<Longrightarrow> P a \<Longrightarrow> \<exists>a'. f x a = Inr a' \<and> P a'"
  shows "\<exists>a'. foldE f xs acc = Inr a' \<and> P a'"
  using assms
proof (induction xs arbitrary: acc)
  case Nil
  then show ?case by simp
next
  case (Cons x xs)
  from Cons.prems obtain a1 where a1: "f x acc = Inr a1" "P a1" by fastforce
  from Cons.IH [OF a1(2)] Cons.prems(2) have "\<exists>a'. foldE f xs a1 = Inr a' \<and> P a'" by simp
  with a1 show ?case by simp
qed

lemma binary_image_zeros: "binary_image sz (np_zeros sz)"
  by (simp add: binary_image_def np_zeros_def)

lemma binary_image_update:
  assumes "binary_image sz img" "r < sz" "v = 0 \<or> v = 1"
  shows "binary_image sz (img[r := (img ! r)[c := v]])"
proof -
  have row: "length (img ! r) = sz" "\<forall>u \<in> set (img ! r). u = 0 \<or> u = 1"
    using assms(1,2) by (auto simp: binary_image_def)
  have "\<forall>u \<in> set ((img ! r)[c := v]). u = 0 \<or> u = 1"
    using row(2) assms(3) set_update_subset_insert [of "img ! r" c v] by blast
  then have new: "length ((img ! r)[c := v]) = sz \<and> (\<forall>u \<in> set ((img ! r)[c := v]). u = 0 \<or> u = 1)"
    using row(1) by simp
  have "\<forall>row \<in> set (img[r := (img ! r)[c := v]]). length row = sz \<and> (\<forall>u \<in> set row. u = 0 \<or> u = 1)"
    using assms(1) new set_update_subset_insert [of img r "(img ! r)[c := v]"]
    unfolding binary_image_def by blast
  then show ?thesis using assms(1) by (simp add: binary_image_def)
qed

lemma img_set_in_canvas:
  assumes "binary_image sz img" "0 \<le> px" "px < int sz" "0 \<le> py" "py < int sz"
  shows "img_set img py px 1 = Inr (img[nat py := (img ! nat py)[nat px := 1]])"
proof -
  have "length img = sz" using assms(1) by (simp add: binary_image_def)
  moreover have "length (img ! nat py) = sz"
    using assms(1,4,5) by (simp add: binary_image_def)
  ultimately show ?thesis using assms(2-5) by (simp add: img_set_def Let_def)
qed

lemma stamp_pixel_outside:
  assumes "\<not> (0 \<le> py_round (cx + real_of_int wx) \<and> py_round (cx + real_of_int wx) < int sz
             \<and> 0 \<le> py_round (cy + real_of_int wy) \<and> py_round (cy + real_of_int wy) < int sz)"
  shows "stamp_pixel sz stroke_width cx cy wx wy img = Inr img"
  using assms by (auto simp: stamp_pixel_def Let_def)

lemma stamp_pixel_binary:
  assumes "binary_image sz img"
  shows "\<exists>img'. stamp_pixel sz stroke_width cx cy wx wy img = Inr img' \<and> binary_image sz img'"
proof (cases "sqrt (real_of_int (wx * wx + wy * wy)) \<le> stroke_width
      \<and> 0 \<le> py_round (cx + real_of_int wx) \<and> py_round (cx + real_of_int wx) < int sz
      \<and> 0 \<le> py_round (cy + real_of_int wy) \<and> py_round (cy + real_of_int wy) < int sz")
  case True
  then have "stamp_pixel sz stroke_width cx cy wx wy img
      = Inr (img[nat (py_round (cy + real_of_int wy))
               := (img ! nat (py_round (cy + real_of_int wy)))[nat (py_round (cx + real_of_int wx)) := 1]])"
    using img_set_in_canvas [OF assms] by (simp add: stamp_pixel_def Let_def)
  moreover have "nat (py_round (cy + real_of_int wy)) < sz" using True by linarith
  ultimately show ?thesis using binary_image_update [OF assms] by simp
next
  case False
  then have "stamp_pixel sz stroke_width cx cy wx wy img = Inr img"
    by (auto simp: stamp_pixel_def Let_def)
  with assms show ?thesis by simp
qed

lemma stamp_disc_binary:
  assumes "binary_image sz img"
  shows "\<exists>img'. stamp_disc sz stroke_width cx cy img = Inr img' \<and> binary_image sz img'"
  unfolding stamp_disc_def
proof (rule foldE_invariant [where P = "binary_image sz"])
  show "binary_image sz img" by (rule assms)
next
  fix wx a
  assume "binary_image sz a"
  then show "\<exists>a'. foldE (\<lambda>wy. stamp_pixel sz stroke_width cx cy wx wy)
      (py_range (py_int (- stroke_width - 1)) (py_int (stroke_width + 2))) a = Inr a'
      \<and> binary_image sz a'"
    by (rule foldE_invariant [where P = "binary_image sz"]) (rule stamp_pixel_binary)
qed

lemma draw_segment_binary:
  assumes "binary_image sz img"
  shows "\<exists>img'. draw_segment sz stroke_width p1 p2 img = Inr img' \<and> binary_image sz img'"
  unfolding draw_segment_def Let_def
  by (rule foldE_invariant [where P = "binary_image sz"], rule assms, rule stamp_disc_binary)

lemma normalize_points_nonempty:
  "points \<noteq> [] \<Longrightarrow> \<exists>nrm. normalize_points points sz = Inr nrm"
  by (simp add: normalize_points_def Let_def)

lemma rasterize_binary:
  assumes "points \<noteq> []"
  shows "\<exists>img. rasterize points sz stroke_width = Inr img \<and> binary_image sz img"
proof -
  from normalize_points_nonempty [OF assms] obtain nrm
    where nrm: "normalize_points points sz = Inr nrm" by blast
  have "\<exists>img. foldE (\<lambda>i. draw_segment sz stroke_width (nrm ! (i - 1)) (nrm ! i))
               [1..<length nrm] (np_zeros sz) = Inr img \<and> binary_image sz img"
    by (rule foldE_invariant [where P = "binary_image sz"], rule binary_image_zeros,
        rule draw_segment_binary)
  then show ?thesis by (simp add: rasterize_def nrm)
qed

text \<open>
  C4. For every non-empty polyline, every canvas size and every stroke width,
  \<^verbatim>\<open>rasterize\<close> returns normally (no write raises \<^verbatim>\<open>IndexError\<close>) a grid of
  \<open>size\<close> rows of \<open>size\<close> entries, each \<open>0\<close> or \<open>1\<close>; and a stamp pixel
  whose rounded coordinates fall outside \<open>[0, size) \<times> [0, size)\<close> leaves the image
  as it is.
\<close>

theorem rasterize_in_bounds:
  "(points \<noteq> [] \<longrightarrow>
      (\<exists>img. rasterize points sz stroke_width = Inr img
         \<and> length img = sz
         \<and> (\<forall>row \<in> set img. length row = sz \<and> (\<forall>v \<in> set row. v = 0 \<or> v = 1))))
   \<and> (\<not> (0 \<le> py_round (cx + real_of_int wx) \<and> py_round (cx + real_of_int wx) < int sz
          \<and> 0 \<le> py_round (cy + real_of_int wy) \<and> py_round (cy + real_of_int wy) < int sz) \<longrightarrow>
        stamp_pixel sz stroke_width cx cy wx wy img0 = Inr img0)"
  using rasterize_binary [of points sz stroke_width]
    stamp_pixel_outside [of cx wx sz cy wy stroke_width img0]
  unfolding binary_image_def by blast

theorem rasterize_in_bounds_witness:
  "[(10, 50), (50, 50), (90, 50)] \<noteq> []
   \<and> (\<exists>img. rasterize [(10, 50), (50, 50), (90, 50)] 4 STROKE_WIDTH = Inr img \<and> length img = 4)
   \<and> \<not> (0 \<le> py_round (7 / 2 + real_of_int 1) \<and> py_round (7 / 2 + real_of_int 1) < int 4
          \<and> 0 \<le> py_round (2 + real_of_int 0) \<and> py_round (2 + real_of_int 0) < int 4)
   \<and> stamp_pixel 4 STROKE_WIDTH (7 / 2) 2 1 0 (np_zeros 4) = Inr (np_zeros 4)"
proof -
  have r: "py_round (7 / 2 + real_of_int 1) = 4"
    by (simp add: py_round_def)
  show ?thesis
    using rasterize_in_bounds [of "[(10, 50), (50, 50), (90, 50)]" 4 STROKE_WIDTH "7 / 2" 1 2 0 "np_zeros 4"]
    unfolding r by auto
qed

lemma rasterize_degenerate:
  assumes "points \<noteq> []" "bbox_width points = 0" "bbox_height points = 0"
  shows "rasterize points sz stroke_width = Inr (np_zeros sz)"
  using assms by (simp add: rasterize_def normalize_points_degenerate)

text \<open>
  C10. On a non-empty polyline whose bounding box has nonzero width or height,
  \<^verbatim>\<open>normalize_points\<close> returns as many points as it was given. On a non-empty polyline
  of any length whose bounding box has zero width and zero height it returns the
  one-element list \<open>[(size/2, size/2)]\<close>, and \<^verbatim>\<open>rasterize\<close> then runs its segment loop
  over the empty range: the image stays all zero.
\<close>

theorem normalize_points_length:
  "(points \<noteq> [] \<and> (bbox_width points \<noteq> 0 \<or> bbox_height points \<noteq> 0) \<longrightarrow>
      (\<exists>out. normalize_points points sz = Inr out \<and> length out = length points))
   \<and> (points \<noteq> [] \<and> bbox_width points = 0 \<and> bbox_height points = 0 \<longrightarrow>
        normalize_points points sz = Inr [(real sz / 2, real sz / 2)]
        \<and> [1..<length [(real sz / 2, real sz / 2)]] = []
        \<and> rasterize points sz stroke_width = Inr (np_zeros sz))"
  by (simp add: normalize_points_nondegenerate normalize_points_degenerate rasterize_degenerate)

theorem normalize_points_length_witness:
  "[(1, 2), (4, 6), (1, 2)] \<noteq> [] \<and> bbox_width [(1, 2), (4, 6), (1, 2)] \<noteq> 0
   \<and> (\<exists>out. normalize_points [(1, 2), (4, 6), (1, 2)] 48 = Inr out
          \<and> length out = length [(1 :: real, 2 :: real), (4, 6), (1, 2)])
   \<and> [(3, 9), (3, 9), (3, 9), (3, 9)] \<noteq> []
   \<and> bbox_width [(3, 9), (3, 9), (3, 9), (3, 9)] = 0
   \<and> bbox_height [(3, 9), (3, 9), (3, 9), (3, 9)] = 0
   \<and> normalize_points [(3, 9), (3, 9), (3, 9), (3, 9)] 48 = Inr [(real 48 / 2, real 48 / 2)]
   \<and> rasterize [(3, 9), (3, 9), (3, 9), (3, 9)] 48 STROKE_WIDTH = Inr (np_zeros 48)"
proof -
  have w: "bbox_width [(1, 2), (4, 6), (1, 2)] = 3"
    "bbox_width [(3, 9), (3, 9), (3, 9), (3, 9)] = 0"
    "bbox_height [(3, 9), (3, 9), (3, 9), (3, 9)] = 0"
    by (simp_all add: bbox_width_def bbox_height_def)
  show ?thesis
    using normalize_points_length [of "[(1, 2), (4, 6), (1, 2)]" 48]
      normalize_points_length [of "[(3, 9), (3, 9), (3, 9), (3, 9)]" 48 STROKE_WIDTH]
    unfolding w by auto
qed

text \<open>
  C7 fails on the code. Three identical points normalize to the single centre point,
  the segment loop \<^verbatim>\<open>for i in range(1, len(norm))\<close> has nothing to draw, and the image
  is all zero: no pixel is \<open>1.0\<close>.
\<close>

theorem rasterize_identical_points_blank:
  "rasterize [(7, 7), (7, 7), (7, 7)] 48 STROKE_WIDTH = Inr (np_zeros 48)
   \<and> 1 \<notin> set (concat (np_zeros 48))"
proof -
  have "bbox_width [(7, 7), (7, 7), (7, 7)] = 0" "bbox_height [(7, 7), (7, 7), (7, 7)] = 0"
    by (simp_all add: bbox_width_def bbox_height_def)
  then show ?thesis by (simp add: rasterize_degenerate np_zeros_def)
qed

subsection \<open>Lengths through the loops\<close>

lemma length_map_st: "length (fst (map_st f xs s)) = length xs"
  by (induction xs arbitrary: s) (simp_all add: case_prod_beta)

lemma mapE_total:
  assumes "\<And>x. x \<in> set xs \<Longrightarrow> \<exists>y. f x = Inr y"
  shows "\<exists>ys. mapE f xs = Inr ys \<and> length ys = length xs"
  using assms
proof (induction xs)
  case Nil
  show ?case by simp
next
  case (Cons x xs)
  from Cons.prems obtain y where y: "f x = Inr y" by fastforce
  from Cons obtain ys where ys: "mapE f xs = Inr ys" "length ys = length xs" by fastforce
  show ?case by (simp add: y ys)
qed

lemma rng_ok_randint:
  "rng_ok R \<Longrightarrow> a \<le> b \<Longrightarrow> a \<le> fst (rnd_randint R a b s) \<and> fst (rnd_randint R a b s) \<le> b"
  by (simp add: rng_ok_def)

lemma rng_ok_randn: "rng_ok R \<Longrightarrow> length (fst (np_randn R n s)) = n"
  by (simp add: rng_ok_def)

subsection \<open>Every generator returns at least three points\<close>

lemma randint_ge:
  assumes "rng_ok R" "a \<le> b" "k \<le> a"
  shows "k \<le> fst (rnd_randint R a b s)"
  using rng_ok_randint [OF assms(1,2), of s] assms(3) by linarith

lemma sum_edge_points_ge:
  "2 * int (length es) \<le> (\<Sum>e\<leftarrow>es. edge_points n tot (edge_length e))"
proof (induction es)
  case Nil
  show ?case by simp
next
  case (Cons e es)
  with edge_points_ge2 [of n tot "edge_length e"] show ?case by simp
qed

lemma length_edges_of: "length (edges_of vertices) = length vertices - 1"
  by (simp add: edges_of_def)

lemma interpolate_along_edges_ge3:
  assumes "3 \<le> length vertices" "3 \<le> n"
  shows "\<exists>pts. interpolate_along_edges vertices n = Inr pts \<and> 3 \<le> length pts"
proof (cases "perimeter vertices = 0")
  case True
  have "vertices \<noteq> []" using assms(1) by auto
  with True assms(2) show ?thesis by (simp add: interpolate_along_edges_degenerate)
next
  case False
  define L where "L = concat (map (\<lambda>e. lerp_points (fst e) (snd e)
      (edge_points n (perimeter vertices) (edge_length e))) (edges_of vertices))"
  have res: "interpolate_along_edges vertices n = Inr (take (nat n) L)"
    using False assms(2) by (simp add: interpolate_along_edges_nondegenerate L_def)
  have "int (length L)
      = (\<Sum>e\<leftarrow>edges_of vertices. edge_points n (perimeter vertices) (edge_length e))"
    unfolding L_def by (rule length_concat_lerp)
  with sum_edge_points_ge [of "edges_of vertices" n "perimeter vertices"]
  have "2 * int (length vertices - 1) \<le> int (length L)"
    by (simp add: length_edges_of)
  with assms(1) have "3 \<le> length L" by linarith
  with assms(2) have "3 \<le> length (take (nat n) L)" by simp
  with res show ?thesis by simp
qed

lemma interpolate_case_ge3:
  assumes "3 \<le> length vertices" "3 \<le> n"
  shows "\<exists>pts s'. (case interpolate_along_edges vertices n of
                     Inl e \<Rightarrow> Inl e
                   | Inr pts \<Rightarrow> Inr (pts, t)) = Inr (pts, s') \<and> 3 \<le> length pts"
  using interpolate_along_edges_ge3 [OF assms] by auto

lemma generate_square_ge3:
  assumes "rng_ok R"
  shows "\<exists>pts s'. generate_square R s = Inr (pts, s') \<and> 3 \<le> length pts"
  unfolding generate_square_def Let_def case_prod_beta
  by (rule interpolate_case_ge3) (simp, rule randint_ge [OF assms], simp_all)

lemma generate_rectangle_ge3:
  assumes "rng_ok R"
  shows "\<exists>pts s'. generate_rectangle R s = Inr (pts, s') \<and> 3 \<le> length pts"
  unfolding generate_rectangle_def Let_def case_prod_beta
  by (rule interpolate_case_ge3) (simp add: rectangle_flip_def, rule randint_ge [OF assms], simp_all)

lemma generate_triangle_ge3:
  assumes "rng_ok R"
  shows "\<exists>pts s'. generate_triangle R s = Inr (pts, s') \<and> 3 \<le> length pts"
  unfolding generate_triangle_def Let_def case_prod_beta
  by (rule interpolate_case_ge3) (simp add: length_map_st, rule randint_ge [OF assms], simp_all)

lemma generate_diamond_ge3:
  assumes "rng_ok R"
  shows "\<exists>pts s'. generate_diamond R s = Inr (pts, s') \<and> 3 \<le> length pts"
  unfolding generate_diamond_def Let_def case_prod_beta
  by (rule interpolate_case_ge3) (simp, rule randint_ge [OF assms], simp_all)

lemma generate_arrow_ge3:
  "\<exists>pts s'. generate_arrow R direction s = Inr (pts, s') \<and> 3 \<le> length pts"
  by (simp add: generate_arrow_def Let_def case_prod_beta)

lemma generate_line_ge3:
  assumes "rng_ok R"
  shows "\<exists>pts s'. generate_line R s = Inr (pts, s') \<and> 3 \<le> length pts"
proof -
  define t where "t = snd (rnd_uniform R 0 pi (snd (rnd_random R s)))"
  have "20 \<le> fst (rnd_randint R 20 40 t)"
    by (rule randint_ge [OF assms]) simp_all
  then have "3 \<le> nat (fst (rnd_randint R 20 40 t))" by linarith
  then show ?thesis
    by (simp add: generate_line_def Let_def case_prod_beta length_py_range t_def)
qed

lemma map_st_ge3:
  assumes "3 \<le> length xs"
  shows "\<exists>pts s'. (Inr (map_st f xs s) :: error + 'b list \<times> 's) = Inr (pts, s')
           \<and> 3 \<le> length pts"
proof -
  have "length (fst (map_st f xs s)) = length xs" by (rule length_map_st)
  with assms show ?thesis by (cases "map_st f xs s") auto
qed

lemma generate_circle_ge3:
  assumes "rng_ok R"
  shows "\<exists>pts s'. generate_circle R s = Inr (pts, s') \<and> 3 \<le> length pts"
proof -
  define t where "t = snd (rnd_uniform R (85 / 100) (115 / 100) (snd (rnd_random R s)))"
  have "50 \<le> fst (rnd_randint R 50 80 t)"
    by (rule randint_ge [OF assms]) simp_all
  then have n: "3 \<le> length (py_range 0 (fst (rnd_randint R 50 80 t) + 1))"
    unfolding length_py_range by linarith
  show ?thesis
    unfolding generate_circle_def Let_def case_prod_beta
    by (rule map_st_ge3) (use n in \<open>simp only: t_def\<close>)
qed

subsection \<open>The augmentation stages: length and finite coordinates\<close>

lemma map_stE_total:
  assumes "\<And>x s. x \<in> set xs \<Longrightarrow> \<exists>y s'. f x s = Inr (y, s') \<and> Q y"
  shows "\<exists>ys s'. map_stE f xs s = Inr (ys, s') \<and> length ys = length xs \<and> (\<forall>y \<in> set ys. Q y)"
  using assms
proof (induction xs arbitrary: s)
  case Nil
  show ?case by simp
next
  case (Cons x xs)
  from Cons.prems [of x s] obtain y s1 where y: "f x s = Inr (y, s1)" "Q y" by auto
  from Cons.IH [of s1] Cons.prems obtain ys s2
    where ys: "map_stE f xs s1 = Inr (ys, s2)" "length ys = length xs" "\<forall>y \<in> set ys. Q y"
    by auto
  show ?case using y ys by simp
qed

lemma mapE_total_prop:
  assumes "\<And>x. x \<in> set xs \<Longrightarrow> \<exists>y. f x = Inr y \<and> Q y"
  shows "\<exists>ys. mapE f xs = Inr ys \<and> length ys = length xs \<and> (\<forall>y \<in> set ys. Q y)"
  using assms
proof (induction xs)
  case Nil
  show ?case by simp
next
  case (Cons x xs)
  from Cons.prems [of x] obtain y where y: "f x = Inr y" "Q y" by auto
  from Cons obtain ys where ys: "mapE f xs = Inr ys" "length ys = length xs" "\<forall>y \<in> set ys. Q y"
    by auto
  show ?case using y ys by simp
qed

lemma coords_within_mono:
  "coords_within B pts \<Longrightarrow> B \<le> B' \<Longrightarrow> coords_within B' pts"
  by (fastforce simp: coords_within_def)

lemma coords_within_subset:
  "coords_within B pts \<Longrightarrow> set qs \<subseteq> set pts \<Longrightarrow> coords_within B qs"
  by (auto simp: coords_within_def)

lemma coords_within_nth:
  "coords_within B pts \<Longrightarrow> i < length pts \<Longrightarrow> \<bar>fst (pts ! i)\<bar> \<le> B \<and> \<bar>snd (pts ! i)\<bar> \<le> B"
  by (simp add: coords_within_def)

lemma coords_within_nonneg:
  "coords_within B pts \<Longrightarrow> pts \<noteq> [] \<Longrightarrow> 0 \<le> B"
proof -
  assume a: "coords_within B pts" "pts \<noteq> []"
  then have "\<bar>fst (hd pts)\<bar> \<le> B" by (simp add: coords_within_def)
  then show ?thesis by linarith
qed

lemma py_div_nonzero: "y \<noteq> 0 \<Longrightarrow> py_div x y = Inr (x / y)"
  by (simp add: py_div_def)

lemma abs_le_norm2: "\<bar>a\<bar> \<le> sqrt (a * a + b * b)" "\<bar>b\<bar> \<le> sqrt (a * a + b * b)"
proof -
  have "\<bar>a\<bar> = sqrt (a * a)" "\<bar>b\<bar> = sqrt (b * b)" by simp_all
  then show "\<bar>a\<bar> \<le> sqrt (a * a + b * b)" "\<bar>b\<bar> \<le> sqrt (a * a + b * b)"
    by (simp_all del: real_sqrt_abs2 real_sqrt_mult_self)
qed

lemma unit_normal:
  assumes "mag = sqrt (a * a + b * b) + 1 / 10 ^ 8"
  shows "mag \<noteq> 0" "\<bar>- b / mag\<bar> \<le> 1" "\<bar>a / mag\<bar> \<le> 1"
proof -
  have n: "0 \<le> sqrt (a * a + b * b)" by simp
  then have pos: "0 < mag" unfolding assms by (simp add: add_nonneg_pos)
  then show "mag \<noteq> 0" by simp
  have "\<bar>b\<bar> \<le> mag" "\<bar>a\<bar> \<le> mag"
    using abs_le_norm2 [where a = a and b = b] unfolding assms by simp_all
  with pos show "\<bar>- b / mag\<bar> \<le> 1" "\<bar>a / mag\<bar> \<le> 1" by simp_all
qed

text \<open>The displacement that \<^verbatim>\<open>add_hand_wobble\<close> applies along the normal at one point.\<close>

lemma wobble_point_form:
  "\<exists>nx ny t. \<bar>nx\<bar> \<le> 1 \<and> \<bar>ny\<bar> \<le> 1
     \<and> wobble_point R points intensity freq1 freq2 phase1 phase2 i s
         = Inr ((fst (points ! i)
                   + nx * (sin (t * real (length points) * freq1 + phase1) * intensity * (6 / 10)
                           + sin (t * real (length points) * freq2 + phase2) * intensity * (3 / 10)
                           + fst (rnd_gauss R 0 (intensity * (3 / 10)) s)),
                 snd (points ! i)
                   + ny * (sin (t * real (length points) * freq1 + phase1) * intensity * (6 / 10)
                           + sin (t * real (length points) * freq2 + phase2) * intensity * (3 / 10)
                           + fst (rnd_gauss R 0 (intensity * (3 / 10)) s))),
                snd (rnd_gauss R 0 (intensity * (3 / 10)) s))"
proof -
  define n where "n = length points"
  define d where "d =
    (if i = 0 then
       (fst (points ! 1) - fst (points ! 0), snd (points ! 1) - snd (points ! 0))
     else if i = n - 1 then
       (fst (points ! (n - 1)) - fst (points ! (n - 2)),
        snd (points ! (n - 1)) - snd (points ! (n - 2)))
     else
       (fst (points ! (i + 1)) - fst (points ! (i - 1)),
        snd (points ! (i + 1)) - snd (points ! (i - 1))))"
  define mag where "mag = sqrt (fst d * fst d + snd d * snd d) + 1 / 10 ^ 8"
  note u = unit_normal [OF mag_def]
  have t: "py_div (real i) (real (max (n - 1) 1)) = Inr (real i / real (max (n - 1) 1))"
    by (rule py_div_nonzero) simp
  have "wobble_point R points intensity freq1 freq2 phase1 phase2 i s
      = Inr ((fst (points ! i)
                + (- snd d / mag)
                  * (sin (real i / real (max (n - 1) 1) * real n * freq1 + phase1) * intensity * (6 / 10)
                     + sin (real i / real (max (n - 1) 1) * real n * freq2 + phase2) * intensity * (3 / 10)
                     + fst (rnd_gauss R 0 (intensity * (3 / 10)) s)),
              snd (points ! i)
                + (fst d / mag)
                  * (sin (real i / real (max (n - 1) 1) * real n * freq1 + phase1) * intensity * (6 / 10)
                     + sin (real i / real (max (n - 1) 1) * real n * freq2 + phase2) * intensity * (3 / 10)
                     + fst (rnd_gauss R 0 (intensity * (3 / 10)) s))),
             snd (rnd_gauss R 0 (intensity * (3 / 10)) s))"
    unfolding wobble_point_def Let_def case_prod_beta n_def [symmetric] d_def [symmetric]
      mag_def [symmetric] t
    by (simp add: py_div_nonzero [OF u(1)])
  with u(2,3) show ?thesis unfolding n_def by blast
qed

lemma normal_bound_gauss:
  "normal_bound R G \<Longrightarrow> 0 \<le> sigma \<Longrightarrow> \<bar>fst (rnd_gauss R mu sigma s) - mu\<bar> \<le> G * sigma"
  by (simp add: normal_bound_def)

lemma normal_bound_randn:
  "normal_bound R G \<Longrightarrow> v \<in> set (fst (np_randn R n s)) \<Longrightarrow> \<bar>v\<bar> \<le> G"
  by (simp add: normal_bound_def)

lemma wobble_bound:
  assumes "normal_bound R G" "0 \<le> intensity" "\<bar>nx\<bar> \<le> 1" "\<bar>x\<bar> \<le> B"
  shows "\<bar>x + nx * (sin a * intensity * (6 / 10) + sin b * intensity * (3 / 10)
                      + fst (rnd_gauss R 0 (intensity * (3 / 10)) s))\<bar>
         \<le> B + (9 / 10 + 3 / 10 * G) * intensity"
proof -
  define w where "w = sin a * intensity * (6 / 10) + sin b * intensity * (3 / 10)
      + fst (rnd_gauss R 0 (intensity * (3 / 10)) s)"
  have "0 \<le> intensity * (3 / 10)" using assms(2) by simp
  from normal_bound_gauss [OF assms(1) this, of 0 s]
  have g: "\<bar>fst (rnd_gauss R 0 (intensity * (3 / 10)) s)\<bar> \<le> G * (intensity * (3 / 10))"
    by simp
  have s1: "\<bar>sin a * intensity * (6 / 10)\<bar> \<le> intensity * (6 / 10)"
  proof -
    have "\<bar>sin a * (intensity * (6 / 10))\<bar> = \<bar>sin a\<bar> * (intensity * (6 / 10))"
      using assms(2) by (simp add: abs_mult)
    also have "\<dots> \<le> 1 * (intensity * (6 / 10))"
      using assms(2) by (intro mult_right_mono) simp_all
    finally show ?thesis by (simp add: mult.assoc)
  qed
  have s2: "\<bar>sin b * intensity * (3 / 10)\<bar> \<le> intensity * (3 / 10)"
  proof -
    have "\<bar>sin b * (intensity * (3 / 10))\<bar> = \<bar>sin b\<bar> * (intensity * (3 / 10))"
      using assms(2) by (simp add: abs_mult)
    also have "\<dots> \<le> 1 * (intensity * (3 / 10))"
      using assms(2) by (intro mult_right_mono) simp_all
    finally show ?thesis by (simp add: mult.assoc)
  qed
  have w: "\<bar>w\<bar> \<le> (9 / 10 + 3 / 10 * G) * intensity"
    unfolding w_def using g s1 s2 by (simp add: algebra_simps)
  have "\<bar>nx * w\<bar> \<le> 1 * \<bar>w\<bar>"
    unfolding abs_mult using assms(3) by (intro mult_right_mono) simp_all
  with w assms(4) show ?thesis unfolding w_def [symmetric] by linarith
qed

lemma wobble_point_keeps:
  assumes i: "i < length points"
  shows "\<exists>p s'. wobble_point R points intensity f1 f2 p1 p2 i t = Inr (p, s')
     \<and> (normal_bound R G \<and> 0 \<le> intensity \<and> coords_within B points \<longrightarrow>
          \<bar>fst p\<bar> \<le> B + (9 / 10 + 3 / 10 * G) * intensity
          \<and> \<bar>snd p\<bar> \<le> B + (9 / 10 + 3 / 10 * G) * intensity)"
proof -
  from wobble_point_form [of R points intensity f1 f2 p1 p2 i t] obtain nx ny u
    where n: "\<bar>nx\<bar> \<le> 1" "\<bar>ny\<bar> \<le> 1"
      and r: "wobble_point R points intensity f1 f2 p1 p2 i t
       = Inr ((fst (points ! i)
                 + nx * (sin (u * real (length points) * f1 + p1) * intensity * (6 / 10)
                         + sin (u * real (length points) * f2 + p2) * intensity * (3 / 10)
                         + fst (rnd_gauss R 0 (intensity * (3 / 10)) t)),
               snd (points ! i)
                 + ny * (sin (u * real (length points) * f1 + p1) * intensity * (6 / 10)
                         + sin (u * real (length points) * f2 + p2) * intensity * (3 / 10)
                         + fst (rnd_gauss R 0 (intensity * (3 / 10)) t))),
              snd (rnd_gauss R 0 (intensity * (3 / 10)) t))" by blast
  show ?thesis
    unfolding r
  proof (intro exI conjI impI)
    show "Inr ((fst (points ! i)
                 + nx * (sin (u * real (length points) * f1 + p1) * intensity * (6 / 10)
                         + sin (u * real (length points) * f2 + p2) * intensity * (3 / 10)
                         + fst (rnd_gauss R 0 (intensity * (3 / 10)) t)),
               snd (points ! i)
                 + ny * (sin (u * real (length points) * f1 + p1) * intensity * (6 / 10)
                         + sin (u * real (length points) * f2 + p2) * intensity * (3 / 10)
                         + fst (rnd_gauss R 0 (intensity * (3 / 10)) t))),
              snd (rnd_gauss R 0 (intensity * (3 / 10)) t))
      = (Inr ((fst (points ! i)
                 + nx * (sin (u * real (length points) * f1 + p1) * intensity * (6 / 10)
                         + sin (u * real (length points) * f2 + p2) * intensity * (3 / 10)
                         + fst (rnd_gauss R 0 (intensity * (3 / 10)) t)),
               snd (points ! i)
                 + ny * (sin (u * real (length points) * f1 + p1) * intensity * (6 / 10)
                         + sin (u * real (length points) * f2 + p2) * intensity * (3 / 10)
                         + fst (rnd_gauss R 0 (intensity * (3 / 10)) t))),
              snd (rnd_gauss R 0 (intensity * (3 / 10)) t)) :: error + point \<times> 'a)"
      by (rule refl)
  next
    assume h: "normal_bound R G \<and> 0 \<le> intensity \<and> coords_within B points"
    then have nb: "normal_bound R G" and I: "0 \<le> intensity" by simp_all
    from h coords_within_nth [OF _ i, of B]
    have c: "\<bar>fst (points ! i)\<bar> \<le> B" "\<bar>snd (points ! i)\<bar> \<le> B" by simp_all
    show "\<bar>fst (fst (points ! i)
                 + nx * (sin (u * real (length points) * f1 + p1) * intensity * (6 / 10)
                         + sin (u * real (length points) * f2 + p2) * intensity * (3 / 10)
                         + fst (rnd_gauss R 0 (intensity * (3 / 10)) t)),
               snd (points ! i)
                 + ny * (sin (u * real (length points) * f1 + p1) * intensity * (6 / 10)
                         + sin (u * real (length points) * f2 + p2) * intensity * (3 / 10)
                         + fst (rnd_gauss R 0 (intensity * (3 / 10)) t)))\<bar>
          \<le> B + (9 / 10 + 3 / 10 * G) * intensity"
      unfolding fst_conv by (rule wobble_bound [OF nb I n(1) c(1)])
    show "\<bar>snd (fst (points ! i)
                 + nx * (sin (u * real (length points) * f1 + p1) * intensity * (6 / 10)
                         + sin (u * real (length points) * f2 + p2) * intensity * (3 / 10)
                         + fst (rnd_gauss R 0 (intensity * (3 / 10)) t)),
               snd (points ! i)
                 + ny * (sin (u * real (length points) * f1 + p1) * intensity * (6 / 10)
                         + sin (u * real (length points) * f2 + p2) * intensity * (3 / 10)
                         + fst (rnd_gauss R 0 (intensity * (3 / 10)) t)))\<bar>
          \<le> B + (9 / 10 + 3 / 10 * G) * intensity"
      unfolding snd_conv by (rule wobble_bound [OF nb I n(2) c(2)])
  qed
qed

lemma add_hand_wobble_unfold:
  assumes "\<not> length points < 2"
  shows "\<exists>f1 f2 p1 p2 t. add_hand_wobble R points intensity s
     = map_stE (wobble_point R points intensity f1 f2 p1 p2) [0..<length points] t"
  using assms unfolding add_hand_wobble_def Let_def case_prod_beta
  by (simp only: if_False) blast

lemma add_hand_wobble_keeps:
  "\<exists>pts s'. add_hand_wobble R points intensity s = Inr (pts, s')
     \<and> length pts = length points
     \<and> (normal_bound R G \<and> 0 \<le> intensity \<and> 0 \<le> G \<and> coords_within B points \<longrightarrow>
          coords_within (B + (9 / 10 + 3 / 10 * G) * intensity) pts)"
proof (cases "length points < 2")
  case True
  have "coords_within (B + (9 / 10 + 3 / 10 * G) * intensity) points"
    if "0 \<le> intensity" "0 \<le> G" "coords_within B points"
    using that(3) by (rule coords_within_mono) (use that(1,2) in simp)
  moreover have "add_hand_wobble R points intensity s = Inr (points, s)"
    using True by (simp add: add_hand_wobble_def)
  ultimately show ?thesis by simp
next
  case False
  from add_hand_wobble_unfold [OF False, of R intensity s] obtain f1 f2 p1 p2 t
    where def: "add_hand_wobble R points intensity s
     = map_stE (wobble_point R points intensity f1 f2 p1 p2) [0..<length points] t" by blast
  define Q where "Q = (\<lambda>p :: point. normal_bound R G \<and> 0 \<le> intensity \<and> coords_within B points \<longrightarrow>
      \<bar>fst p\<bar> \<le> B + (9 / 10 + 3 / 10 * G) * intensity
      \<and> \<bar>snd p\<bar> \<le> B + (9 / 10 + 3 / 10 * G) * intensity)"
  have "\<exists>ys s'. map_stE (wobble_point R points intensity f1 f2 p1 p2) [0..<length points] t
        = Inr (ys, s')
      \<and> length ys = length [0..<length points] \<and> (\<forall>y \<in> set ys. Q y)"
  proof (rule map_stE_total)
    fix i u
    assume "i \<in> set [0..<length points]"
    then have "i < length points" by simp
    then show "\<exists>y s'. wobble_point R points intensity f1 f2 p1 p2 i u = Inr (y, s') \<and> Q y"
      unfolding Q_def by (rule wobble_point_keeps)
  qed
  then obtain pts s' where r: "map_stE (wobble_point R points intensity f1 f2 p1 p2)
        [0..<length points] t = Inr (pts, s')"
    "length pts = length points" "\<forall>y \<in> set pts. Q y" by auto
  have "coords_within (B + (9 / 10 + 3 / 10 * G) * intensity) pts"
    if "normal_bound R G \<and> 0 \<le> intensity \<and> 0 \<le> G \<and> coords_within B points"
    unfolding coords_within_def
  proof
    fix p
    assume "p \<in> set pts"
    with r(3) have "Q p" by blast
    with that show "\<bar>fst p\<bar> \<le> B + (9 / 10 + 3 / 10 * G) * intensity
        \<and> \<bar>snd p\<bar> \<le> B + (9 / 10 + 3 / 10 * G) * intensity"
      unfolding Q_def by blast
  qed
  with r(1,2) show ?thesis unfolding def by blast
qed

lemma simulate_incomplete_shape_keeps:
  assumes "3 \<le> length points"
  shows "3 \<le> length (fst (simulate_incomplete_shape R points is_closed s))"
proof -
  have cut: "3 \<le> length (py_slice_to points (max 3 k))" for k :: int
  proof -
    have "(3::nat) \<le> nat (max 3 k)" by linarith
    with assms show ?thesis by (simp add: py_slice_to_def)
  qed
  show ?thesis
    using assms cut by (simp add: simulate_incomplete_shape_def Let_def case_prod_beta)
qed

lemma set_py_slice_to: "set (py_slice_to xs k) \<subseteq> set xs"
  by (auto simp: py_slice_to_def dest: in_set_takeD)

lemma simulate_incomplete_shape_subset:
  "set (fst (simulate_incomplete_shape R points is_closed s)) \<subseteq> set points"
  using set_py_slice_to [of points]
  by (simp add: simulate_incomplete_shape_def Let_def case_prod_beta)

lemma simulate_stroke_speed_keeps:
  assumes "3 \<le> length points"
  shows "3 \<le> length (fst (simulate_stroke_speed R points s))"
  using assms by (simp add: simulate_stroke_speed_def Let_def case_prod_beta)

lemma keep_points_subset:
  assumes "\<forall>i \<in> set is. i < length points"
  shows "set (fst (keep_points R points curvatures is s)) \<subseteq> set points"
  using assms
proof (induction "is" arbitrary: s)
  case Nil
  show ?case by simp
next
  case (Cons i "is")
  from Cons.prems have i: "points ! i \<in> set points" by simp
  from Cons.prems have "\<forall>i \<in> set is. i < length points" by simp
  from Cons.IH [OF this] i show ?case
    by (auto simp: Let_def case_prod_beta)
qed

lemma simulate_stroke_speed_subset:
  "set (fst (simulate_stroke_speed R points s)) \<subseteq> set points"
proof (cases "length points < 5")
  case True
  then show ?thesis by (simp add: simulate_stroke_speed_def)
next
  case False
  then have "0 < length points" by linarith
  then have "points ! 0 \<in> set points" by (rule nth_mem)
  moreover have "set (fst (keep_points R points (curvatures_of points) [1..<length points] s))
      \<subseteq> set points"
    by (rule keep_points_subset) simp
  ultimately show ?thesis
    using False by (auto simp: simulate_stroke_speed_def Let_def case_prod_beta)
qed

lemma stroke_speed_stage_keeps:
  assumes "3 \<le> length points"
  shows "3 \<le> length (fst (stroke_speed_stage R points s))"
  using assms simulate_stroke_speed_keeps [of points R]
  by (simp add: stroke_speed_stage_def Let_def case_prod_beta)

lemma stroke_speed_stage_subset:
  "set (fst (stroke_speed_stage R points s)) \<subseteq> set points"
  using simulate_stroke_speed_subset [of R points]
  by (simp add: stroke_speed_stage_def Let_def case_prod_beta)

lemma length_np_linspace: "length (np_linspace a b k) = k"
  by (simp add: np_linspace_def)

lemma length_gaussian_weights: "3 \<le> length (gaussian_weights sigma)"
  by (simp add: gaussian_weights_def Let_def length_np_linspace)

lemma gaussian_weights_pos: "w \<in> set (gaussian_weights sigma) \<Longrightarrow> 0 < w"
  by (auto simp: gaussian_weights_def Let_def)

lemma gaussian_weights_sum_pos: "0 < sum_list (gaussian_weights sigma)"
proof -
  have ne: "gaussian_weights sigma \<noteq> []"
    using length_gaussian_weights [of sigma] by auto
  have "(\<forall>w \<in> set ws. 0 < w) \<Longrightarrow> ws \<noteq> [] \<Longrightarrow> 0 < sum_list ws" for ws :: "real list"
    by (induction ws) (auto simp: add_pos_nonneg sum_list_nonneg less_imp_le)
  from this [OF _ ne] gaussian_weights_pos show ?thesis by blast
qed

text \<open>
  The normalised kernel: the division by \<^verbatim>\<open>kernel.sum()\<close> is by a positive number, the
  entries are not negative and sum to one.
\<close>

lemma gaussian_kernel_form:
  "\<exists>kern. gaussian_kernel sigma = Inr kern \<and> 3 \<le> length kern
     \<and> (\<forall>k \<in> set kern. 0 \<le> k) \<and> sum_list kern = 1"
proof -
  define ws where "ws = gaussian_weights sigma"
  define S where "S = sum_list ws"
  have S: "0 < S" unfolding S_def ws_def by (rule gaussian_weights_sum_pos)
  have r: "gaussian_kernel sigma = Inr (map (\<lambda>x. x / S) ws)"
    using S by (simp add: gaussian_kernel_def Let_def np_divide_def ws_def S_def)
  have len: "3 \<le> length (map (\<lambda>x. x / S) ws)"
    using length_gaussian_weights [of sigma] by (simp add: ws_def)
  have nonneg: "\<forall>k \<in> set (map (\<lambda>x. x / S) ws). 0 \<le> k"
    using S gaussian_weights_pos [of _ sigma] by (auto simp: ws_def intro: less_imp_le)
  have "sum_list (map (\<lambda>x. x / S) ws) = sum_list ws / S"
    by (induction ws) (simp_all add: add_divide_distrib)
  then have one: "sum_list (map (\<lambda>x. x / S) ws) = 1" using S by (simp add: S_def)
  from r len nonneg one show ?thesis by blast
qed

lemma sum_list_abs_bound:
  fixes f g :: "'a \<Rightarrow> real"
  assumes "\<And>x. x \<in> set xs \<Longrightarrow> \<bar>f x\<bar> \<le> g x"
  shows "\<bar>sum_list (map f xs)\<bar> \<le> sum_list (map g xs)"
  using assms
proof (induction xs)
  case Nil
  show ?case by simp
next
  case (Cons x xs)
  have "\<bar>f x + sum_list (map f xs)\<bar> \<le> \<bar>f x\<bar> + \<bar>sum_list (map f xs)\<bar>" by (rule abs_triangle_ineq)
  with Cons show ?case by fastforce
qed

lemma conv_full_bound_left:
  assumes a: "\<forall>x \<in> set a. 0 \<le> x" and v: "\<forall>x \<in> set v. \<bar>x\<bar> \<le> A" and A: "0 \<le> A"
  shows "\<bar>conv_full a v m\<bar> \<le> sum_list a * A"
proof -
  have "\<bar>conv_full a v m\<bar> \<le> sum_list (map (\<lambda>t. a ! t * A) [0..<length a])"
    unfolding conv_full_def
  proof (rule sum_list_abs_bound)
    fix t
    assume "t \<in> set [0..<length a]"
    then have t: "t < length a" by simp
    then have at: "0 \<le> a ! t" using a by simp
    show "\<bar>if t \<le> m \<and> m - t < length v then a ! t * v ! (m - t) else 0\<bar> \<le> a ! t * A"
    proof (cases "t \<le> m \<and> m - t < length v")
      case True
      then have "\<bar>v ! (m - t)\<bar> \<le> A" using v by simp
      then have "a ! t * \<bar>v ! (m - t)\<bar> \<le> a ! t * A" using at by (rule mult_left_mono)
      then have "\<bar>a ! t * v ! (m - t)\<bar> \<le> a ! t * A" using at by (simp add: abs_mult)
      then show ?thesis by (simp only: if_P [OF True])
    next
      case False
      have "\<bar>0 :: real\<bar> \<le> a ! t * A" using at A by simp
      then show ?thesis by (simp only: if_not_P [OF False])
    qed
  qed
  also have "\<dots> = sum_list (map (\<lambda>x. x * A) (map ((!) a) [0..<length a]))"
    by (simp add: comp_def)
  also have "\<dots> = sum_list a * A"
    unfolding map_nth by (simp add: sum_list_mult_const)
  finally show ?thesis .
qed

lemma shifted_sum_le:
  fixes v :: "real list"
  assumes v: "\<forall>x \<in> set v. 0 \<le> x"
  shows "sum_list (map (\<lambda>t. if t \<le> m \<and> m - t < length v then v ! (m - t) else 0) [0..<n])
         \<le> sum_list v"
proof -
  define T where "T = {t \<in> {0..<n}. t \<le> m \<and> m - t < length v}"
  have fin: "finite T" by (simp add: T_def)
  have "sum_list (map (\<lambda>t. if t \<le> m \<and> m - t < length v then v ! (m - t) else 0) [0..<n])
      = (\<Sum>t \<in> {0..<n}. if t \<le> m \<and> m - t < length v then v ! (m - t) else 0)"
    by (simp add: interv_sum_list_conv_sum_set_nat)
  also have "\<dots> = (\<Sum>t \<in> T. v ! (m - t))"
    unfolding T_def by (rule sum.inter_filter [symmetric]) simp
  also have "\<dots> = (\<Sum>j \<in> (\<lambda>t. m - t) ` T. v ! j)"
  proof -
    have "inj_on (\<lambda>t. m - t) T"
      by (rule inj_onI) (auto simp: T_def)
    then show ?thesis by (simp add: sum.reindex)
  qed
  also have "\<dots> \<le> (\<Sum>j \<in> {0..<length v}. v ! j)"
  proof (rule sum_mono2)
    show "finite {0..<length v}" by simp
    show "(\<lambda>t. m - t) ` T \<subseteq> {0..<length v}" by (auto simp: T_def)
    fix b
    assume "b \<in> {0..<length v} - (\<lambda>t. m - t) ` T"
    then have "b < length v" by simp
    then show "0 \<le> v ! b" using v by simp
  qed
  also have "\<dots> = sum_list v" by (simp add: sum_list_sum_nth)
  finally show ?thesis .
qed

lemma conv_full_bound_right:
  assumes a: "\<forall>x \<in> set a. \<bar>x\<bar> \<le> A" and v: "\<forall>x \<in> set v. 0 \<le> x" and A: "0 \<le> A"
  shows "\<bar>conv_full a v m\<bar> \<le> A * sum_list v"
proof -
  have "\<bar>conv_full a v m\<bar>
      \<le> sum_list (map (\<lambda>t. A * (if t \<le> m \<and> m - t < length v then v ! (m - t) else 0))
            [0..<length a])"
    unfolding conv_full_def
  proof (rule sum_list_abs_bound)
    fix t
    assume "t \<in> set [0..<length a]"
    then have t: "\<bar>a ! t\<bar> \<le> A" using a by simp
    show "\<bar>if t \<le> m \<and> m - t < length v then a ! t * v ! (m - t) else 0\<bar>
        \<le> A * (if t \<le> m \<and> m - t < length v then v ! (m - t) else 0)"
    proof (cases "t \<le> m \<and> m - t < length v")
      case True
      then have vt: "0 \<le> v ! (m - t)" using v by simp
      from t have "\<bar>a ! t\<bar> * v ! (m - t) \<le> A * v ! (m - t)" using vt by (rule mult_right_mono)
      then have "\<bar>a ! t * v ! (m - t)\<bar> \<le> A * v ! (m - t)" using vt by (simp add: abs_mult)
      then show ?thesis by (simp only: if_P [OF True])
    next
      case False
      have "\<bar>0 :: real\<bar> \<le> A * 0" by simp
      then show ?thesis by (simp only: if_not_P [OF False])
    qed
  qed
  also have "\<dots> = A * sum_list (map (\<lambda>t. if t \<le> m \<and> m - t < length v then v ! (m - t) else 0)
      [0..<length a])"
    by (simp add: sum_list_const_mult)
  also have "\<dots> \<le> A * sum_list v"
    using shifted_sum_le [OF v, of m "length a"] A by (rule mult_left_mono)
  finally show ?thesis .
qed

lemma np_convolve_same_bound:
  assumes kern: "kern \<noteq> []" "\<forall>k \<in> set kern. 0 \<le> k" "sum_list kern = 1"
    and field: "field \<noteq> []" "\<forall>x \<in> set field. \<bar>x\<bar> \<le> F" and F: "0 \<le> F"
  shows "\<exists>out. np_convolve_same field kern = Inr out \<and> length field \<le> length out
     \<and> (\<forall>x \<in> set out. \<bar>x\<bar> \<le> F)"
proof (cases "length field < length kern")
  case True
  have "\<bar>conv_full kern field m\<bar> \<le> F" for m
    using conv_full_bound_left [OF kern(2) field(2) F, of m] kern(3) by simp
  with True kern(1) field(1) show ?thesis
    by (auto simp: np_convolve_same_def)
next
  case False
  have "\<bar>conv_full field kern m\<bar> \<le> F" for m
    using conv_full_bound_right [OF field(2) kern(2) F, of m] kern(3) by simp
  with False kern(1) field(1) show ?thesis
    by (auto simp: np_convolve_same_def)
qed

lemma np_convolve_same_total:
  assumes "v \<noteq> []" "a \<noteq> []"
  shows "\<exists>out. np_convolve_same a v = Inr out \<and> length a \<le> length out"
  using assms by (auto simp: np_convolve_same_def)

lemma elastic_deform_keeps:
  assumes "rng_ok R"
  shows "\<exists>pts s'. elastic_deform R points alpha sigma s = Inr (pts, s')
     \<and> length pts = length points
     \<and> (normal_bound R G \<and> 0 \<le> G \<and> coords_within B points \<longrightarrow>
          coords_within (B + G * \<bar>alpha\<bar>) pts)"
proof (cases "length points < 2")
  case True
  have "coords_within (B + G * \<bar>alpha\<bar>) points" if "0 \<le> G" "coords_within B points"
    using that(2) by (rule coords_within_mono) (use that(1) in simp)
  with True show ?thesis by (simp add: elastic_deform_def)
next
  case False
  define n where "n = length points"
  define r1 where "r1 = fst (np_randn R n s)"
  define s1 where "s1 = snd (np_randn R n s)"
  define r2 where "r2 = fst (np_randn R n s1)"
  define s2 where "s2 = snd (np_randn R n s1)"
  define fx where "fx = map (\<lambda>v. v * alpha) r1"
  define fy where "fy = map (\<lambda>v. v * alpha) r2"
  have n2: "2 \<le> n" using False by (simp add: n_def)
  have len: "length fx = n" "length fy = n"
    using rng_ok_randn [OF assms] by (simp_all add: fx_def fy_def r1_def r2_def)
  then have ne: "fx \<noteq> []" "fy \<noteq> []" using n2 by auto
  from gaussian_kernel_form [of sigma] obtain kern
    where k: "gaussian_kernel sigma = Inr kern" "3 \<le> length kern"
      "\<forall>k \<in> set kern. 0 \<le> k" "sum_list kern = 1" by blast
  then have kne: "kern \<noteq> []" by auto
  from np_convolve_same_total [OF kne ne(1)] obtain dxs
    where dxs: "np_convolve_same fx kern = Inr dxs" "n \<le> length dxs" using len by auto
  from np_convolve_same_total [OF kne ne(2)] obtain dys
    where dys: "np_convolve_same fy kern = Inr dys" "n \<le> length dys" using len by auto
  have bounded: "(\<forall>x \<in> set dxs. \<bar>x\<bar> \<le> G * \<bar>alpha\<bar>) \<and> (\<forall>x \<in> set dys. \<bar>x\<bar> \<le> G * \<bar>alpha\<bar>)"
    if nb: "normal_bound R G" and G: "0 \<le> G"
  proof -
    have F: "0 \<le> G * \<bar>alpha\<bar>" using G by simp
    have b: "\<bar>v * alpha\<bar> \<le> G * \<bar>alpha\<bar>" if "\<bar>v\<bar> \<le> G" for v
      unfolding abs_mult using that by (rule mult_right_mono) simp
    have bx: "\<forall>x \<in> set fx. \<bar>x\<bar> \<le> G * \<bar>alpha\<bar>"
      using normal_bound_randn [OF nb] b by (auto simp: fx_def r1_def)
    have by': "\<forall>x \<in> set fy. \<bar>x\<bar> \<le> G * \<bar>alpha\<bar>"
      using normal_bound_randn [OF nb] b by (auto simp: fy_def r2_def)
    from np_convolve_same_bound [OF kne k(3,4) ne(1) bx F] dxs(1)
    have 1: "\<forall>x \<in> set dxs. \<bar>x\<bar> \<le> G * \<bar>alpha\<bar>" by auto
    from np_convolve_same_bound [OF kne k(3,4) ne(2) by' F] dys(1)
    have 2: "\<forall>x \<in> set dys. \<bar>x\<bar> \<le> G * \<bar>alpha\<bar>" by auto
    from 1 2 show ?thesis by simp
  qed
  define Q where "Q = (\<lambda>p :: point. normal_bound R G \<and> 0 \<le> G \<and> coords_within B points \<longrightarrow>
      \<bar>fst p\<bar> \<le> B + G * \<bar>alpha\<bar> \<and> \<bar>snd p\<bar> \<le> B + G * \<bar>alpha\<bar>)"
  have "\<exists>ys. mapE (\<lambda>i. if i < length dxs \<and> i < length dys
                       then Inr (fst (points ! i) + dxs ! i, snd (points ! i) + dys ! i)
                       else Inl IndexError) [0..<n] = Inr ys
      \<and> length ys = length [0..<n] \<and> (\<forall>y \<in> set ys. Q y)"
  proof (rule mapE_total_prop)
    fix i
    assume "i \<in> set [0..<n]"
    then have i: "i < n" by simp
    then have il: "i < length dxs" "i < length dys" "i < length points"
      using dxs(2) dys(2) by (simp_all add: n_def)
    have "Q (fst (points ! i) + dxs ! i, snd (points ! i) + dys ! i)"
      unfolding Q_def fst_conv snd_conv
    proof (intro impI)
      assume h: "normal_bound R G \<and> 0 \<le> G \<and> coords_within B points"
      with bounded il have d: "\<bar>dxs ! i\<bar> \<le> G * \<bar>alpha\<bar>" "\<bar>dys ! i\<bar> \<le> G * \<bar>alpha\<bar>"
        by simp_all
      from h coords_within_nth [OF _ il(3), of B]
      have c: "\<bar>fst (points ! i)\<bar> \<le> B" "\<bar>snd (points ! i)\<bar> \<le> B" by simp_all
      from c d show "\<bar>fst (points ! i) + dxs ! i\<bar> \<le> B + G * \<bar>alpha\<bar>
          \<and> \<bar>snd (points ! i) + dys ! i\<bar> \<le> B + G * \<bar>alpha\<bar>" by linarith
    qed
    with il show "\<exists>y. (if i < length dxs \<and> i < length dys
                       then Inr (fst (points ! i) + dxs ! i, snd (points ! i) + dys ! i)
                       else Inl IndexError) = Inr y \<and> Q y" by simp
  qed
  then obtain ys where ys: "mapE (\<lambda>i. if i < length dxs \<and> i < length dys
                       then Inr (fst (points ! i) + dxs ! i, snd (points ! i) + dys ! i)
                       else Inl IndexError) [0..<n] = Inr ys"
    "length ys = n" "\<forall>y \<in> set ys. Q y" by auto
  have res: "elastic_deform R points alpha sigma s = Inr (ys, s2)"
    using False k(1) dxs(1) dys(1) ys(1)
    by (simp add: elastic_deform_def Let_def case_prod_beta n_def [symmetric]
        r1_def [symmetric] s1_def [symmetric] r2_def [symmetric] s2_def [symmetric]
        fx_def [symmetric] fy_def [symmetric])
  have "coords_within (B + G * \<bar>alpha\<bar>) ys"
    if "normal_bound R G \<and> 0 \<le> G \<and> coords_within B points"
    unfolding coords_within_def
  proof
    fix p
    assume "p \<in> set ys"
    with ys(3) have "Q p" by blast
    with that show "\<bar>fst p\<bar> \<le> B + G * \<bar>alpha\<bar> \<and> \<bar>snd p\<bar> \<le> B + G * \<bar>alpha\<bar>"
      unfolding Q_def by blast
  qed
  with res ys(2) show ?thesis by (simp add: n_def)
qed

lemma mean_bound:
  fixes xs :: "real list"
  assumes "xs \<noteq> []" "\<forall>x \<in> set xs. \<bar>x\<bar> \<le> B"
  shows "\<bar>sum_list xs / real (length xs)\<bar> \<le> B"
proof -
  have "\<bar>sum_list (map (\<lambda>x. x) xs)\<bar> \<le> sum_list (map (\<lambda>x. B) xs)"
    by (rule sum_list_abs_bound) (use assms(2) in simp)
  then have "\<bar>sum_list xs\<bar> \<le> real (length xs) * B"
    by (simp add: sum_list_triv)
  moreover have "0 < real (length xs)" using assms(1) by simp
  ultimately show ?thesis by (simp add: field_simps)
qed

lemma centroid_bound:
  assumes "points \<noteq> []" "coords_within B points"
  shows "\<bar>sum_list (map fst points) / real (length points)\<bar> \<le> B"
    and "\<bar>sum_list (map snd points) / real (length points)\<bar> \<le> B"
  using mean_bound [of "map fst points" B] mean_bound [of "map snd points" B] assms
  by (simp_all add: coords_within_def)

lemma rotated_bound:
  fixes x y cx cy :: real
  assumes "\<bar>x\<bar> \<le> B" "\<bar>y\<bar> \<le> B" "\<bar>cx\<bar> \<le> B" "\<bar>cy\<bar> \<le> B"
  shows "\<bar>cx + (x - cx) * cos a - (y - cy) * sin a\<bar> \<le> 5 * B"
    and "\<bar>cy + (x - cx) * sin a + (y - cy) * cos a\<bar> \<le> 5 * B"
proof -
  have dx: "\<bar>x - cx\<bar> \<le> 2 * B" and dy: "\<bar>y - cy\<bar> \<le> 2 * B" using assms by linarith+
  have m: "\<bar>d * t\<bar> \<le> 2 * B" if "\<bar>d\<bar> \<le> 2 * B" "\<bar>t\<bar> \<le> 1" for d t :: real
  proof -
    have "\<bar>d\<bar> * \<bar>t\<bar> \<le> (2 * B) * 1"
      using that by (intro mult_mono) simp_all
    then show ?thesis by (simp add: abs_mult)
  qed
  have 1: "\<bar>(x - cx) * cos a\<bar> \<le> 2 * B" "\<bar>(y - cy) * sin a\<bar> \<le> 2 * B"
    "\<bar>(x - cx) * sin a\<bar> \<le> 2 * B" "\<bar>(y - cy) * cos a\<bar> \<le> 2 * B"
    using dx dy by (simp_all add: m)
  from 1 assms(3) show "\<bar>cx + (x - cx) * cos a - (y - cy) * sin a\<bar> \<le> 5 * B" by linarith
  from 1 assms(4) show "\<bar>cy + (x - cx) * sin a + (y - cy) * cos a\<bar> \<le> 5 * B" by linarith
qed

lemma rotate_keeps:
  assumes "points \<noteq> []"
  shows "\<exists>pts. rotate_points points angle = Inr pts \<and> length pts = length points
     \<and> (coords_within B points \<longrightarrow> coords_within (5 * B) pts)"
proof -
  define cx where "cx = sum_list (map fst points) / real (length points)"
  define cy where "cy = sum_list (map snd points) / real (length points)"
  have n: "real (length points) \<noteq> 0" using assms by simp
  have r: "rotate_points points angle
      = Inr (map (\<lambda>(x, y). (cx + (x - cx) * cos angle - (y - cy) * sin angle,
                               cy + (x - cx) * sin angle + (y - cy) * cos angle)) points)"
    by (simp add: rotate_points_def py_div_nonzero [OF n] Let_def cx_def cy_def)
  have "coords_within (5 * B) (map (\<lambda>(x, y). (cx + (x - cx) * cos angle - (y - cy) * sin angle,
                               cy + (x - cx) * sin angle + (y - cy) * cos angle)) points)"
    if c: "coords_within B points"
  proof -
    note cb = centroid_bound [OF assms c, folded cx_def cy_def]
    show ?thesis
      unfolding coords_within_def
    proof
      fix p
      assume "p \<in> set (map (\<lambda>(x, y). (cx + (x - cx) * cos angle - (y - cy) * sin angle,
                               cy + (x - cx) * sin angle + (y - cy) * cos angle)) points)"
      then obtain q where q: "q \<in> set points"
        and p: "p = (cx + (fst q - cx) * cos angle - (snd q - cy) * sin angle,
                     cy + (fst q - cx) * sin angle + (snd q - cy) * cos angle)"
        by (auto simp: case_prod_beta)
      from c q have "\<bar>fst q\<bar> \<le> B" "\<bar>snd q\<bar> \<le> B" by (simp_all add: coords_within_def)
      from rotated_bound [OF this cb, of angle]
      show "\<bar>fst p\<bar> \<le> 5 * B \<and> \<bar>snd p\<bar> \<le> 5 * B" by (simp add: p)
    qed
  qed
  with r show ?thesis by simp
qed

lemma scaled_bound:
  fixes x cx :: real
  assumes "\<bar>x\<bar> \<le> B" "\<bar>cx\<bar> \<le> B"
  shows "\<bar>cx + (x - cx) * f\<bar> \<le> B + 2 * B * \<bar>f\<bar>"
proof -
  have "\<bar>x - cx\<bar> \<le> 2 * B" using assms by linarith
  then have "\<bar>x - cx\<bar> * \<bar>f\<bar> \<le> 2 * B * \<bar>f\<bar>" by (rule mult_right_mono) simp
  then have "\<bar>(x - cx) * f\<bar> \<le> 2 * B * \<bar>f\<bar>" by (simp add: abs_mult)
  with assms(2) show ?thesis by linarith
qed

lemma scale_keeps:
  assumes "points \<noteq> []"
  shows "\<exists>pts. scale points factor = Inr pts \<and> length pts = length points
     \<and> (coords_within B points \<longrightarrow> coords_within (B + 2 * B * \<bar>factor\<bar>) pts)"
proof -
  define cx where "cx = sum_list (map fst points) / real (length points)"
  define cy where "cy = sum_list (map snd points) / real (length points)"
  have n: "real (length points) \<noteq> 0" using assms by simp
  have r: "scale points factor
      = Inr (map (\<lambda>(x, y). (cx + (x - cx) * factor, cy + (y - cy) * factor)) points)"
    by (simp add: scale_def py_div_nonzero [OF n] cx_def cy_def)
  have "coords_within (B + 2 * B * \<bar>factor\<bar>)
      (map (\<lambda>(x, y). (cx + (x - cx) * factor, cy + (y - cy) * factor)) points)"
    if c: "coords_within B points"
  proof -
    note cb = centroid_bound [OF assms c, folded cx_def cy_def]
    show ?thesis
      unfolding coords_within_def
    proof
      fix p
      assume "p \<in> set (map (\<lambda>(x, y). (cx + (x - cx) * factor, cy + (y - cy) * factor)) points)"
      then obtain q where q: "q \<in> set points"
        and p: "p = (cx + (fst q - cx) * factor, cy + (snd q - cy) * factor)"
        by (auto simp: case_prod_beta)
      from c q have b: "\<bar>fst q\<bar> \<le> B" "\<bar>snd q\<bar> \<le> B" by (simp_all add: coords_within_def)
      from scaled_bound [OF b(1) cb(1), of factor] scaled_bound [OF b(2) cb(2), of factor]
      show "\<bar>fst p\<bar> \<le> B + 2 * B * \<bar>factor\<bar> \<and> \<bar>snd p\<bar> \<le> B + 2 * B * \<bar>factor\<bar>"
        by (simp add: p)
    qed
  qed
  with r show ?thesis by simp
qed

lemma length_translate: "length (translate points dx dy) = length points"
  by (simp add: translate_def)

lemma translate_within:
  assumes "coords_within B points" "\<bar>dx\<bar> \<le> D" "\<bar>dy\<bar> \<le> D"
  shows "coords_within (B + D) (translate points dx dy)"
  unfolding coords_within_def translate_def
proof
  fix p
  assume "p \<in> set (map (\<lambda>(x, y). (x + dx, y + dy)) points)"
  then obtain q where q: "q \<in> set points" and p: "p = (fst q + dx, snd q + dy)"
    by (auto simp: case_prod_beta)
  from assms(1) q have "\<bar>fst q\<bar> \<le> B" "\<bar>snd q\<bar> \<le> B" by (simp_all add: coords_within_def)
  with assms(2,3) show "\<bar>fst p\<bar> \<le> B + D \<and> \<bar>snd p\<bar> \<le> B + D"
    unfolding p fst_conv snd_conv by linarith
qed

lemma length_add_noise: "length (fst (add_noise R points std s)) = length points"
  by (simp add: add_noise_def length_map_st)

lemma map_st_prop:
  assumes "\<And>x s. x \<in> set xs \<Longrightarrow> Q (fst (f x s))"
  shows "\<forall>y \<in> set (fst (map_st f xs s)). Q y"
  using assms
proof (induction xs arbitrary: s)
  case Nil
  show ?case by simp
next
  case (Cons x xs)
  have "Q (fst (f x s))" by (rule Cons.prems) simp
  moreover have "\<forall>y \<in> set (fst (map_st f xs (snd (f x s)))). Q y"
    by (rule Cons.IH) (rule Cons.prems, simp)
  ultimately show ?case by (simp add: case_prod_beta)
qed

lemma add_noise_within:
  assumes nb: "normal_bound R G" and std: "0 \<le> std" and c: "coords_within B points"
  shows "coords_within (B + G * std) (fst (add_noise R points std s))"
proof -
  have "\<forall>p \<in> set (fst (add_noise R points std s)).
      \<bar>fst p\<bar> \<le> B + G * std \<and> \<bar>snd p\<bar> \<le> B + G * std"
    unfolding add_noise_def
  proof (rule map_st_prop)
    fix q :: point and t
    assume q: "q \<in> set points"
    with c have b: "\<bar>fst q\<bar> \<le> B" "\<bar>snd q\<bar> \<le> B" by (simp_all add: coords_within_def)
    have g1: "\<bar>fst (rnd_gauss R 0 std t)\<bar> \<le> G * std"
      using normal_bound_gauss [OF nb std, of 0 t] by simp
    have g2: "\<bar>fst (rnd_gauss R 0 std (snd (rnd_gauss R 0 std t)))\<bar> \<le> G * std"
      using normal_bound_gauss [OF nb std, of 0 "snd (rnd_gauss R 0 std t)"] by simp
    from b g1 g2
    show "\<bar>fst (fst ((case q of (x, y) \<Rightarrow> \<lambda>s. let (gx, s1) = rnd_gauss R 0 std s;
                (gy, s2) = rnd_gauss R 0 std s1 in ((x + gx, y + gy), s2)) t))\<bar> \<le> B + G * std
        \<and> \<bar>snd (fst ((case q of (x, y) \<Rightarrow> \<lambda>s. let (gx, s1) = rnd_gauss R 0 std s;
                (gy, s2) = rnd_gauss R 0 std s1 in ((x + gx, y + gy), s2)) t))\<bar> \<le> B + G * std"
      unfolding Let_def case_prod_beta fst_conv snd_conv by linarith
  qed
  then show ?thesis by (simp add: coords_within_def)
qed

subsection \<open>The augmentation pipeline\<close>

lemma elastic_stage_keeps:
  assumes "rng_ok R"
  shows "\<exists>pts s' n'. elastic_stage R points st = Inr (pts, s', n')
     \<and> length pts = length points
     \<and> (normal_bound R G \<and> 0 \<le> G \<and> coords_within B points \<longrightarrow>
          coords_within (B + 6 * G) pts)"
proof (cases "fst (rnd_random R (fst st)) < 6 / 10")
  case True
  define alpha where "alpha = fst (rnd_uniform R 2 6 (snd (rnd_random R (fst st))))"
  have a: "\<bar>alpha\<bar> \<le> 6"
    using rng_ok_uniform [OF assms, of 2 6 "snd (rnd_random R (fst st))"] by (simp add: alpha_def)
  from elastic_deform_keeps [OF assms, of points alpha 3 "snd st" G B] obtain pts n'
    where e: "elastic_deform R points alpha 3 (snd st) = Inr (pts, n')"
      "length pts = length points"
      "normal_bound R G \<and> 0 \<le> G \<and> coords_within B points \<longrightarrow>
         coords_within (B + G * \<bar>alpha\<bar>) pts"
    by blast
  have "coords_within (B + 6 * G) pts"
    if h: "normal_bound R G \<and> 0 \<le> G \<and> coords_within B points"
  proof -
    have le: "G * \<bar>alpha\<bar> \<le> G * 6" using h a by (intro mult_left_mono) simp_all
    from h e(3) have "coords_within (B + G * \<bar>alpha\<bar>) pts" by blast
    then show ?thesis by (rule coords_within_mono) (use le in simp)
  qed
  with True e(1,2) show ?thesis
    by (simp add: elastic_stage_def Let_def case_prod_beta alpha_def)
next
  case False
  have "coords_within (B + 6 * G) points" if "0 \<le> G" "coords_within B points"
    using that(2) by (rule coords_within_mono) (use that(1) in simp)
  with False show ?thesis by (simp add: elastic_stage_def Let_def case_prod_beta)
qed

lemma rotation_range_defined:
  assumes "shape_name \<in> set SHAPE_NAMES"
  shows "\<exists>lo hi. ROTATION_RANGES shape_name = Some (lo, hi)"
  using assms by (auto simp: SHAPE_NAMES_def ROTATION_RANGES_def)

lemma augment_bound_arith:
  fixes G B z :: real
  assumes "z \<le> G * (15 / 10)" "0 \<le> G"
  shows "5 * (B + 9 / 4 + 3 / 4 * G + 6 * G)
     + 2 * (5 * (B + 9 / 4 + 3 / 4 * G + 6 * G)) * (18 / 10) + 8 + z \<le> 23 * B + 157 * G + 60"
  using assms by argo

lemma augment_keeps:
  assumes "rng_ok R" "3 \<le> length points" "shape_name \<in> set SHAPE_NAMES"
  shows "\<exists>pts st'. augment R points shape_name st = Inr (pts, st') \<and> 3 \<le> length pts
     \<and> (normal_bound R G \<and> 0 \<le> G \<and> coords_within B points \<longrightarrow>
          coords_within (23 * B + 157 * G + 60) pts)"
proof -
  from rotation_range_defined [OF assms(3)] obtain lo hi
    where rr: "ROTATION_RANGES shape_name = Some (lo, hi)" by blast
  define i1 where "i1 = rnd_uniform R (5 / 10) (25 / 10) (fst st)"
  have I: "5 / 10 \<le> fst i1" "fst i1 \<le> 25 / 10"
    using rng_ok_uniform [OF assms(1), of "5 / 10" "25 / 10" "fst st"] by (simp_all add: i1_def)
  from add_hand_wobble_keeps [of R points "fst i1" "snd i1" G B] obtain p1 s2
    where w: "add_hand_wobble R points (fst i1) (snd i1) = Inr (p1, s2)"
      and l1: "length p1 = length points"
      and b1: "normal_bound R G \<and> 0 \<le> fst i1 \<and> 0 \<le> G \<and> coords_within B points \<longrightarrow>
          coords_within (B + (9 / 10 + 3 / 10 * G) * fst i1) p1" by blast
  define inc where
    "inc = simulate_incomplete_shape R p1 (shape_name \<in> CLOSED_SHAPES) s2"
  define sp where "sp = stroke_speed_stage R (fst inc) (snd inc)"
  have "3 \<le> length p1" using assms(2) l1 by simp
  then have "3 \<le> length (fst inc)"
    unfolding inc_def by (rule simulate_incomplete_shape_keeps)
  then have l3: "3 \<le> length (fst sp)"
    unfolding sp_def by (rule stroke_speed_stage_keeps)
  have sub: "set (fst sp) \<subseteq> set p1"
    using stroke_speed_stage_subset [of R "fst inc" "snd inc"]
      simulate_incomplete_shape_subset [of R p1 "shape_name \<in> CLOSED_SHAPES" s2]
    unfolding sp_def inc_def by blast
  from elastic_stage_keeps [OF assms(1), of "fst sp" "(snd sp, snd st)" G "B + 9 / 4 + 3 / 4 * G"]
  obtain p4 s5 n1
    where el: "elastic_stage R (fst sp) (snd sp, snd st) = Inr (p4, s5, n1)"
      and l4: "length p4 = length (fst sp)"
      and b4: "normal_bound R G \<and> 0 \<le> G \<and> coords_within (B + 9 / 4 + 3 / 4 * G) (fst sp) \<longrightarrow>
          coords_within (B + 9 / 4 + 3 / 4 * G + 6 * G) p4" by blast
  define a where "a = rnd_uniform R lo hi s5"
  have ne4: "p4 \<noteq> []" using l3 l4 by auto
  from rotate_keeps [OF ne4, of "radians (fst a)" "B + 9 / 4 + 3 / 4 * G + 6 * G"] obtain p5
    where rot: "rotate_points p4 (radians (fst a)) = Inr p5" and l5: "length p5 = length p4"
      and b5: "coords_within (B + 9 / 4 + 3 / 4 * G + 6 * G) p4 \<longrightarrow>
          coords_within (5 * (B + 9 / 4 + 3 / 4 * G + 6 * G)) p5" by blast
  define sc where "sc = rnd_uniform R (6 / 10) (18 / 10) (snd a)"
  have f: "6 / 10 \<le> fst sc" "fst sc \<le> 18 / 10"
    using rng_ok_uniform [OF assms(1), of "6 / 10" "18 / 10" "snd a"] by (simp_all add: sc_def)
  have ne5: "p5 \<noteq> []" using l3 l4 l5 by auto
  from scale_keeps [OF ne5, of "fst sc" "5 * (B + 9 / 4 + 3 / 4 * G + 6 * G)"] obtain p6
    where scl: "scale p5 (fst sc) = Inr p6" and l6: "length p6 = length p5"
      and b6: "coords_within (5 * (B + 9 / 4 + 3 / 4 * G + 6 * G)) p5 \<longrightarrow>
          coords_within (5 * (B + 9 / 4 + 3 / 4 * G + 6 * G)
             + 2 * (5 * (B + 9 / 4 + 3 / 4 * G + 6 * G)) * \<bar>fst sc\<bar>) p6" by blast
  define tx where "tx = rnd_uniform R (- 8) 8 (snd sc)"
  define ty where "ty = rnd_uniform R (- 8) 8 (snd tx)"
  define ns where "ns = rnd_uniform R (3 / 10) (15 / 10) (snd ty)"
  have t: "\<bar>fst tx\<bar> \<le> 8" "\<bar>fst ty\<bar> \<le> 8"
    using rng_ok_uniform [OF assms(1), of "- 8" 8 "snd sc"]
      rng_ok_uniform [OF assms(1), of "- 8" 8 "snd tx"] by (auto simp: tx_def ty_def abs_le_iff)
  have sd: "3 / 10 \<le> fst ns" "fst ns \<le> 15 / 10"
    using rng_ok_uniform [OF assms(1), of "3 / 10" "15 / 10" "snd ty"] by (simp_all add: ns_def)
  define p8 where "p8 = fst (add_noise R (translate p6 (fst tx) (fst ty)) (fst ns) (snd ns))"
  define s11 where "s11 = snd (add_noise R (translate p6 (fst tx) (fst ty)) (fst ns) (snd ns))"
  have res: "augment R points shape_name st = Inr (p8, s11, n1)"
    using w el rot scl
    unfolding sp_def inc_def i1_def a_def sc_def tx_def ty_def ns_def p8_def s11_def
    by (simp add: augment_def rr Let_def case_prod_beta)
  have len: "3 \<le> length p8"
    using l3 l4 l5 l6 by (simp add: p8_def length_add_noise length_translate)
  have bound: "coords_within (23 * B + 157 * G + 60) p8"
    if h: "normal_bound R G \<and> 0 \<le> G \<and> coords_within B points"
  proof -
    from h have nb: "normal_bound R G" and G: "0 \<le> G" and c: "coords_within B points"
      by simp_all
    have B0: "0 \<le> B" using c assms(2) by (intro coords_within_nonneg [of B points]) auto
    define B1 where "B1 = B + 9 / 4 + 3 / 4 * G"
    have le1: "(9 / 10 + 3 / 10 * G) * fst i1 \<le> (9 / 10 + 3 / 10 * G) * (25 / 10)"
      using I(2) G by (intro mult_left_mono) simp_all
    from h b1 I(1) have "coords_within (B + (9 / 10 + 3 / 10 * G) * fst i1) p1" by simp
    then have "coords_within B1 p1"
      unfolding B1_def by (rule coords_within_mono) (use le1 in \<open>simp add: algebra_simps\<close>)
    then have "coords_within B1 (fst sp)" using sub by (rule coords_within_subset)
    with b4 nb G have c4: "coords_within (B1 + 6 * G) p4" by (simp add: B1_def)
    define B4 where "B4 = 5 * (B1 + 6 * G)"
    from c4 b5 have c5: "coords_within B4 p5" by (simp add: B1_def B4_def)
    have B4n: "0 \<le> B4" using B0 G by (simp add: B4_def B1_def)
    have le6: "2 * B4 * \<bar>fst sc\<bar> \<le> 2 * B4 * (18 / 10)"
      using f B4n by (intro mult_left_mono) simp_all
    from c5 b6 have "coords_within (B4 + 2 * B4 * \<bar>fst sc\<bar>) p6" by (simp add: B1_def B4_def)
    then have c6: "coords_within (B4 + 2 * B4 * (18 / 10)) p6"
      by (rule coords_within_mono) (use le6 in simp)
    from translate_within [OF c6 t]
    have c7: "coords_within (B4 + 2 * B4 * (18 / 10) + 8) (translate p6 (fst tx) (fst ty))" .
    have s0: "0 \<le> fst ns" using sd(1) by simp
    from add_noise_within [OF nb s0 c7, of "snd ns"]
    have c8: "coords_within (B4 + 2 * B4 * (18 / 10) + 8 + G * fst ns) p8" by (simp add: p8_def)
    have "G * fst ns \<le> G * (15 / 10)" using sd(2) G by (intro mult_left_mono) simp_all
    then have "B4 + 2 * B4 * (18 / 10) + 8 + G * fst ns \<le> 23 * B + 157 * G + 60"
      using G unfolding B4_def B1_def by (rule augment_bound_arith)
    with c8 show ?thesis by (rule coords_within_mono)
  qed
  from res len bound show ?thesis by blast
qed

lemma generators_lookup:
  "GENERATORS R ''circle'' = Some (generate_circle R)"
  "GENERATORS R ''square'' = Some (generate_square R)"
  "GENERATORS R ''rectangle'' = Some (generate_rectangle R)"
  "GENERATORS R ''triangle'' = Some (generate_triangle R)"
  "GENERATORS R ''arrow-left'' = Some (generate_arrow_left R)"
  "GENERATORS R ''arrow-right'' = Some (generate_arrow_right R)"
  "GENERATORS R ''arrow-up'' = Some (generate_arrow_up R)"
  "GENERATORS R ''arrow-down'' = Some (generate_arrow_down R)"
  "GENERATORS R ''diamond'' = Some (generate_diamond R)"
  "GENERATORS R ''line'' = Some (generate_line R)"
  by (simp_all add: GENERATORS_def)

lemma generators_all:
  assumes "rng_ok R"
  shows "\<forall>shape_name \<in> set SHAPE_NAMES.
           \<exists>gen_fn. GENERATORS R shape_name = Some gen_fn
             \<and> (\<forall>s. \<exists>pts s'. gen_fn s = Inr (pts, s') \<and> 3 \<le> length pts)"
proof -
  have circle: "\<forall>s. \<exists>pts s'. generate_circle R s = Inr (pts, s') \<and> 3 \<le> length pts"
    using generate_circle_ge3 [OF assms] by blast
  have square: "\<forall>s. \<exists>pts s'. generate_square R s = Inr (pts, s') \<and> 3 \<le> length pts"
    using generate_square_ge3 [OF assms] by blast
  have rectangle: "\<forall>s. \<exists>pts s'. generate_rectangle R s = Inr (pts, s') \<and> 3 \<le> length pts"
    using generate_rectangle_ge3 [OF assms] by blast
  have triangle: "\<forall>s. \<exists>pts s'. generate_triangle R s = Inr (pts, s') \<and> 3 \<le> length pts"
    using generate_triangle_ge3 [OF assms] by blast
  have arrow: "\<forall>s. \<exists>pts s'. generate_arrow R d s = Inr (pts, s') \<and> 3 \<le> length pts" for d
    using generate_arrow_ge3 [of R d] by blast
  have diamond: "\<forall>s. \<exists>pts s'. generate_diamond R s = Inr (pts, s') \<and> 3 \<le> length pts"
    using generate_diamond_ge3 [OF assms] by blast
  have line: "\<forall>s. \<exists>pts s'. generate_line R s = Inr (pts, s') \<and> 3 \<le> length pts"
    using generate_line_ge3 [OF assms] by blast
  show ?thesis
    unfolding SHAPE_NAMES_def list.set ball_simps generators_lookup
      generate_arrow_left_def generate_arrow_right_def generate_arrow_up_def
      generate_arrow_down_def
    using circle square rectangle triangle arrow diamond line
    by (intro conjI ballI) (simp_all del: ex_simps all_simps)
qed

lemma generators_defined:
  assumes "rng_ok R" "shape_name \<in> set SHAPE_NAMES"
  shows "\<exists>gen_fn. GENERATORS R shape_name = Some gen_fn
           \<and> (\<forall>s. \<exists>pts s'. gen_fn s = Inr (pts, s') \<and> 3 \<le> length pts)"
  using generators_all [OF assms(1)] assms(2) by blast








subsection \<open>Dataset generation\<close>

lemma length_class_major: "length (class_major n k) = k * n"
  by (induction k) (simp_all add: class_major_def)

lemma class_major_Suc: "class_major n (Suc k) = class_major n k @ replicate n k"
  by (simp add: class_major_def)

lemma class_major_nth:
  "i < k * n \<Longrightarrow> class_major n k ! i = i div n"
proof (induction k)
  case 0
  then show ?case by simp
next
  case (Suc k)
  show ?case
  proof (cases "i < k * n")
    case True
    with Suc.IH show ?thesis
      by (simp add: class_major_Suc nth_append length_class_major)
  next
    case False
    then have lo: "k * n \<le> i" by simp
    from Suc.prems have hi: "i < k * n + n" by simp
    have n0: "0 < n" using lo hi by (cases n) auto
    have "i div n = k"
    proof (rule antisym)
      from hi have "i < (Suc k) * n" by simp
      then have "i div n < Suc k" using n0 by (simp add: less_mult_imp_div_less)
      then show "i div n \<le> k" by simp
      from lo have "k * n div n \<le> i div n" by (rule div_le_mono)
      then show "k \<le> i div n" using n0 by simp
    qed
    moreover have "i - k * n < n" using lo hi by linarith
    ultimately show ?thesis
      using False by (simp add: class_major_Suc nth_append length_class_major)
  qed
qed

lemma class_major_count:
  "count_list (class_major n k) c = (if c < k then n else 0)"
proof (induction k)
  case 0
  show ?case by (simp add: class_major_def)
next
  case (Suc k)
  have "count_list (replicate n k) c = (if c = k then n else 0)"
    by (induction n) auto
  with Suc show ?case by (auto simp: class_major_Suc)
qed

lemma class_major_sorted: "sorted (class_major n k)"
proof -
  have "class_major n k ! i \<le> class_major n k ! j"
    if "i \<le> j" "j < length (class_major n k)" for i j
  proof -
    from that have "i < k * n" "j < k * n" by (simp_all add: length_class_major)
    then show ?thesis using that(1) by (simp add: class_major_nth div_le_mono)
  qed
  then show ?thesis by (simp add: sorted_iff_nth_mono)
qed

lemma make_sample_total:
  assumes "rng_ok R" "shape_name \<in> set SHAPE_NAMES"
    and "\<forall>s. \<exists>pts s'. gen_fn s = Inr (pts, s') \<and> 3 \<le> length pts"
  shows "\<exists>img st'. make_sample R cfg shape_name gen_fn st = Inr (img, st')"
proof -
  from assms(3) obtain pts s1 where g: "gen_fn (fst st) = Inr (pts, s1)" "3 \<le> length pts"
    by blast
  from augment_keeps [OF assms(1) g(2) assms(2), of "(s1, snd st)"] obtain pts' st'
    where a: "augment R pts shape_name (s1, snd st) = Inr (pts', st')" "3 \<le> length pts'"
    by blast
  from a(2) have "pts' \<noteq> []" by auto
  from rasterize_binary [OF this, of "canvas_size cfg" STROKE_WIDTH] obtain img
    where "rasterize pts' (canvas_size cfg) STROKE_WIDTH = Inr img" by blast
  with g(1) a(1) show ?thesis by (simp add: make_sample_def)
qed

lemma class_loop_total:
  assumes "rng_ok R" "shape_name \<in> set SHAPE_NAMES"
    and "\<forall>s. \<exists>pts s'. gen_fn s = Inr (pts, s') \<and> 3 \<le> length pts"
  shows "\<exists>imgs st'. class_loop R cfg class_idx shape_name gen_fn k acc st
            = Inr ((fst acc @ imgs, snd acc @ replicate k class_idx), st')
          \<and> length imgs = k"
proof (induction k arbitrary: acc st)
  case 0
  show ?case by simp
next
  case (Suc k)
  from make_sample_total [OF assms, of cfg st] obtain img st1
    where m: "make_sample R cfg shape_name gen_fn st = Inr (img, st1)" by blast
  from Suc [of "(fst acc @ [img], snd acc @ [class_idx])" st1] obtain imgs st'
    where r: "class_loop R cfg class_idx shape_name gen_fn k
                (fst acc @ [img], snd acc @ [class_idx]) st1
              = Inr (((fst acc @ [img]) @ imgs, (snd acc @ [class_idx]) @ replicate k class_idx), st')"
      "length imgs = k" by auto
  have "class_loop R cfg class_idx shape_name gen_fn (Suc k) acc st
      = Inr ((fst acc @ (img # imgs), snd acc @ replicate (Suc k) class_idx), st')"
    using m r(1) by (simp add: replicate_append_same)
  moreover have "length (img # imgs) = Suc k" using r(2) by simp
  ultimately show ?case by blast
qed

lemma dataset_loop_total:
  assumes "rng_ok R" "set (map snd items) \<subseteq> set SHAPE_NAMES"
  shows "\<exists>imgs st'. dataset_loop R cfg items acc st
            = Inr ((fst acc @ imgs,
                    snd acc @ concat (map (\<lambda>item. replicate (samples_per_class cfg) (fst item)) items)),
                   st')
          \<and> length imgs = length items * samples_per_class cfg"
  using assms(2)
proof (induction items arbitrary: acc st)
  case Nil
  show ?case by simp
next
  case (Cons item items)
  obtain class_idx shape_name where item: "item = (class_idx, shape_name)" by (cases item)
  with Cons.prems have mem: "shape_name \<in> set SHAPE_NAMES" by simp
  from generators_defined [OF assms(1) mem] obtain gen_fn
    where g: "GENERATORS R shape_name = Some gen_fn"
      "\<forall>s. \<exists>pts s'. gen_fn s = Inr (pts, s') \<and> 3 \<le> length pts" by blast
  from class_loop_total [OF assms(1) mem g(2), of cfg class_idx "samples_per_class cfg" acc st]
  obtain imgs1 st1
    where c: "class_loop R cfg class_idx shape_name gen_fn (samples_per_class cfg) acc st
              = Inr ((fst acc @ imgs1, snd acc @ replicate (samples_per_class cfg) class_idx), st1)"
      "length imgs1 = samples_per_class cfg" by blast
  from Cons.prems have "set (map snd items) \<subseteq> set SHAPE_NAMES" by simp
  from Cons.IH [OF this,
      of "(fst acc @ imgs1, snd acc @ replicate (samples_per_class cfg) class_idx)" st1]
  obtain imgs2 st2
    where d: "dataset_loop R cfg items
                (fst acc @ imgs1, snd acc @ replicate (samples_per_class cfg) class_idx) st1
              = Inr (((fst acc @ imgs1) @ imgs2,
                      (snd acc @ replicate (samples_per_class cfg) class_idx)
                        @ concat (map (\<lambda>item. replicate (samples_per_class cfg) (fst item)) items)),
                     st2)"
      "length imgs2 = length items * samples_per_class cfg" by auto
  have "dataset_loop R cfg (item # items) acc st
      = Inr ((fst acc @ (imgs1 @ imgs2),
              snd acc @ concat (map (\<lambda>item. replicate (samples_per_class cfg) (fst item))
                                   (item # items))),
             st2)"
    using g(1) c(1) d(1) by (simp add: item)
  moreover have "length (imgs1 @ imgs2) = length (item # items) * samples_per_class cfg"
    using c(2) d(2) by simp
  ultimately show ?case by blast
qed

lemma enumerate_labels:
  "concat (map (\<lambda>item. replicate n (fst item)) (enumerate 0 xs)) = class_major n (length xs)"
  by (simp add: class_major_def enumerate_eq_zip map_fst_zip comp_def
      flip: map_map [of "replicate n" fst, unfolded comp_def])

lemma length_SHAPE_NAMES: "length SHAPE_NAMES = NUM_CLASSES"
  by (simp add: SHAPE_NAMES_def NUM_CLASSES_def)

lemma generate_dataset_total:
  assumes "rng_ok R"
  shows "\<exists>images st'. generate_dataset R cfg st
            = Inr ((images, class_major (samples_per_class cfg) NUM_CLASSES), st')
          \<and> length images = NUM_CLASSES * samples_per_class cfg"
proof -
  have "set (map snd (enumerate 0 SHAPE_NAMES)) \<subseteq> set SHAPE_NAMES"
    by (simp add: enumerate_eq_zip)
  from dataset_loop_total [OF assms this, of cfg "([], [])" st] obtain imgs st'
    where d: "dataset_loop R cfg (enumerate 0 SHAPE_NAMES) ([], []) st
              = Inr ((imgs, class_major (samples_per_class cfg) NUM_CLASSES), st')"
      "length imgs = NUM_CLASSES * samples_per_class cfg"
    by (auto simp: enumerate_labels length_SHAPE_NAMES)
  then show ?thesis by (simp add: generate_dataset_def)
qed

text \<open>
  C1. For every configuration and every random source inside its documented ranges,
  \<^verbatim>\<open>generate_dataset\<close> returns normally; \<open>images\<close> and \<open>labels\<close> have the same length
  \<open>NUM_CLASSES * SAMPLES_PER_CLASS\<close>; every class index below \<open>NUM_CLASSES\<close> occurs
  exactly \<open>SAMPLES_PER_CLASS\<close> times among the labels; and the order is class-major:
  sample \<open>i\<close> carries the label \<open>i div SAMPLES_PER_CLASS\<close>, so the labels are sorted.
\<close>

theorem generate_dataset_class_major:
  assumes "rng_ok R"
  shows "\<exists>images labels st'.
           generate_dataset R cfg st = Inr ((images, labels), st')
           \<and> length images = length labels
           \<and> length labels = NUM_CLASSES * samples_per_class cfg
           \<and> (\<forall>c < NUM_CLASSES. count_list labels c = samples_per_class cfg)
           \<and> (\<forall>i < length labels. labels ! i = i div samples_per_class cfg)
           \<and> sorted labels"
proof -
  from generate_dataset_total [OF assms, of cfg st] obtain images st'
    where g: "generate_dataset R cfg st
              = Inr ((images, class_major (samples_per_class cfg) NUM_CLASSES), st')"
      "length images = NUM_CLASSES * samples_per_class cfg" by blast
  have "length images = length (class_major (samples_per_class cfg) NUM_CLASSES)"
    using g(2) by (simp add: length_class_major)
  moreover have "length (class_major (samples_per_class cfg) NUM_CLASSES)
      = NUM_CLASSES * samples_per_class cfg"
    by (simp add: length_class_major)
  moreover have "\<forall>c < NUM_CLASSES.
      count_list (class_major (samples_per_class cfg) NUM_CLASSES) c = samples_per_class cfg"
    by (simp add: class_major_count)
  moreover have "\<forall>i < length (class_major (samples_per_class cfg) NUM_CLASSES).
      class_major (samples_per_class cfg) NUM_CLASSES ! i = i div samples_per_class cfg"
    by (simp add: length_class_major class_major_nth)
  moreover note class_major_sorted [of "samples_per_class cfg" NUM_CLASSES]
  ultimately show ?thesis using g(1) by blast
qed

theorem generate_dataset_class_major_witness:
  "rng_ok low_rng
   \<and> (\<exists>images labels st'.
         generate_dataset low_rng \<lparr>samples_per_class = 5, canvas_size = 48\<rparr> (0 :: nat, 0 :: nat)
           = Inr ((images, labels), st')
         \<and> length images = length labels
         \<and> length labels = 50
         \<and> 3 < NUM_CLASSES \<and> count_list labels 3 = 5
         \<and> 17 < length labels \<and> labels ! 17 = 3)"
proof -
  from generate_dataset_class_major
    [OF low_rng_ok, of "\<lparr>samples_per_class = 5, canvas_size = 48\<rparr>" "(0, 0)"]
  obtain images labels st'
    where g: "generate_dataset low_rng \<lparr>samples_per_class = 5, canvas_size = 48\<rparr> (0 :: nat, 0 :: nat)
                = Inr ((images, labels), st')"
      "length images = length labels" "length labels = NUM_CLASSES * 5"
      "\<forall>c < NUM_CLASSES. count_list labels c = 5"
      "\<forall>i < length labels. labels ! i = i div 5"
    by auto
  have n: "(3 :: nat) < NUM_CLASSES" by (simp add: NUM_CLASSES_def)
  have l: "length labels = 50" using g(3) by (simp add: NUM_CLASSES_def)
  have c: "count_list labels 3 = 5" using g(4) n by blast
  have i: "labels ! 17 = 3" using g(5) l by simp
  from low_rng_ok g(1,2) l n c i show ?thesis by auto
qed

end
